theory Spec2Isabelle
  imports Main "HOL-Library.Sublist" "HOL-Library.AList"
begin

section \<open>Python strings\<close>

text \<open>
  Strings are \<^typ>\<open>string\<close>; the model reads them as ASCII text. On ASCII, Python's
  \<^verbatim>\<open>str.lower\<close> and \<^verbatim>\<open>str.casefold\<close> both map \<^verbatim>\<open>A-Z\<close> to \<^verbatim>\<open>a-z\<close>, the
  regular-expression class \<^verbatim>\<open>\d\<close> is \<^verbatim>\<open>0-9\<close>, and the whitespace of \<^verbatim>\<open>\s\<close>,
  \<^verbatim>\<open>str.strip\<close> and \<^verbatim>\<open>int\<close> is the ten characters 9-13, 28-31 and 32.
  Characters from 128 on are left alone by every function below.
\<close>

definition is_space :: "char \<Rightarrow> bool" where
  "is_space c \<longleftrightarrow> (of_char c :: nat) \<in> {9, 10, 11, 12, 13, 28, 29, 30, 31, 32}"

definition is_digit :: "char \<Rightarrow> bool" where
  "is_digit c \<longleftrightarrow> 48 \<le> (of_char c :: nat) \<and> (of_char c :: nat) \<le> 57"

definition is_alpha :: "char \<Rightarrow> bool" where
  "is_alpha c \<longleftrightarrow>
     (65 \<le> (of_char c :: nat) \<and> (of_char c :: nat) \<le> 90) \<or>
     (97 \<le> (of_char c :: nat) \<and> (of_char c :: nat) \<le> 122)"

definition lower_char :: "char \<Rightarrow> char" where
  "lower_char c =
     (case map_of (zip ''ABCDEFGHIJKLMNOPQRSTUVWXYZ'' ''abcdefghijklmnopqrstuvwxyz'') c of
        Some d \<Rightarrow> d
      | None \<Rightarrow> c)"

definition lower :: "string \<Rightarrow> string" where
  "lower s = map lower_char s"

definition casefold :: "string \<Rightarrow> string" where
  "casefold s = map lower_char s"

text \<open>\<^verbatim>\<open>s.strip(chars)\<close> removes, at both ends, every character satisfying the predicate.\<close>

definition strip_with :: "(char \<Rightarrow> bool) \<Rightarrow> string \<Rightarrow> string" where
  "strip_with P s = rev (dropWhile P (rev (dropWhile P s)))"

definition strip :: "string \<Rightarrow> string" where
  "strip s = strip_with is_space s"

text \<open>\<^verbatim>\<open>p in t\<close> on strings: \<open>p\<close> occurs in \<open>t\<close> as a contiguous block.\<close>

fun str_in :: "string \<Rightarrow> string \<Rightarrow> bool" where
  "str_in p [] = (p = [])"
| "str_in p (c # cs) = (prefix p (c # cs) \<or> str_in p cs)"

section \<open>Category\<close>

text \<open>
  \<^verbatim>\<open>EmailOfferPipeline._cat\<close>: the text scanned is \<^verbatim>\<open>f"{sub} {body}".lower()\<close>.
\<close>

definition cat :: "string \<Rightarrow> string \<Rightarrow> string" where
  "cat sub body =
     (let t = lower (sub @ '' '' @ body) in
      if str_in ''spc'' t then ''SPC Flooring''
      else if str_in ''lvt'' t then ''LVT Flooring''
      else if str_in ''laminate'' t then ''Laminate Flooring''
      else if str_in ''tile'' t then ''Tile''
      else if str_in ''solid'' t \<and> str_in ''hardwood'' t then ''Solid Hardwood''
      else ''Other'')"

section \<open>Regular expressions\<close>

text \<open>
  A pattern is a backtracking matcher: applied to the text that starts at the current
  position it returns every text that can remain after a match, in the order in which
  Python's \<^verbatim>\<open>re\<close> tries them (greedy repetitions try the longest first, an alternation
  its left branch first). The head of the list is the match \<^verbatim>\<open>re\<close> reports.
\<close>

type_synonym matcher = "string \<Rightarrow> string list"

definition rx_cls :: "(char \<Rightarrow> bool) \<Rightarrow> matcher" where
  "rx_cls P s = (case s of [] \<Rightarrow> [] | c # cs \<Rightarrow> if P c then [cs] else [])"

text \<open>A literal under \<^verbatim>\<open>re.I\<close>.\<close>

fun rx_lit :: "string \<Rightarrow> matcher" where
  "rx_lit [] s = [s]"
| "rx_lit (a # as) s = concat (map (rx_lit as) (rx_cls (\<lambda>c. lower_char c = lower_char a) s))"

definition rx_seq :: "matcher \<Rightarrow> matcher \<Rightarrow> matcher" where
  "rx_seq m1 m2 s = concat (map m2 (m1 s))"

definition rx_alt :: "matcher \<Rightarrow> matcher \<Rightarrow> matcher" where
  "rx_alt m1 m2 s = m1 s @ m2 s"

definition rx_opt :: "matcher \<Rightarrow> matcher" where
  "rx_opt m s = m s @ [s]"

fun rx_times :: "nat \<Rightarrow> matcher \<Rightarrow> matcher" where
  "rx_times 0 m s = [s]"
| "rx_times (Suc n) m s = concat (map (rx_times n m) (m s))"

fun rx_upto :: "nat \<Rightarrow> matcher \<Rightarrow> matcher" where
  "rx_upto 0 m s = [s]"
| "rx_upto (Suc n) m s = concat (map (rx_upto n m) (m s)) @ [s]"

text \<open>\<^verbatim>\<open>m{lo,hi}\<close>, greedy.\<close>

definition rx_rep :: "nat \<Rightarrow> nat \<Rightarrow> matcher \<Rightarrow> matcher" where
  "rx_rep lo hi m = rx_seq (rx_times lo m) (rx_upto (hi - lo) m)"

text \<open>
  \<^verbatim>\<open>m*\<close>, greedy, for a body that consumes at least one character per round (every
  starred body below does), so that the length of the text bounds the rounds.
\<close>

definition rx_star :: "matcher \<Rightarrow> matcher" where
  "rx_star m s = rx_upto (length s) m s"

text \<open>
  A compiled pattern with one capturing group, \<^verbatim>\<open>pre(grp)post\<close>, tried at one position:
  the result is \<^verbatim>\<open>(match.group(0), match.groups())\<close> of the first way to match.
\<close>

type_synonym regex = "char option \<Rightarrow> string \<Rightarrow> (string \<times> string list) option"

definition rx_group :: "matcher \<Rightarrow> matcher \<Rightarrow> matcher \<Rightarrow> string \<Rightarrow> (string \<times> string list) option" where
  "rx_group pre grp post s =
     (case concat (map (\<lambda>r1. concat (map (\<lambda>r2. map (\<lambda>r3.
              (take (length s - length r3) s, [take (length r1 - length r2) r1]))
            (post r2)) (grp r1))) (pre s)) of
        [] \<Rightarrow> None
      | g # _ \<Rightarrow> Some g)"

text \<open>
  \<^verbatim>\<open>rgx.search(txt)\<close>: the leftmost position at which the pattern matches; \<open>prev\<close> is
  the character before the position (for \<^verbatim>\<open>\b\<close>).
\<close>

fun rx_search :: "regex \<Rightarrow> char option \<Rightarrow> string \<Rightarrow> (string \<times> string list) option" where
  "rx_search rgx prev [] = rgx prev []"
| "rx_search rgx prev (c # cs) =
     (case rgx prev (c # cs) of
        Some g \<Rightarrow> Some g
      | None \<Rightarrow> rx_search rgx (Some c) cs)"

definition is_word :: "char \<Rightarrow> bool" where
  "is_word c \<longleftrightarrow> is_alpha c \<or> is_digit c \<or> c = CHR ''_''"

text \<open>\<^verbatim>\<open>\b\<close>: exactly one of the two neighbours is a word character.\<close>

definition word_boundary :: "char option \<Rightarrow> string \<Rightarrow> bool" where
  "word_boundary prev s \<longleftrightarrow>
     (case prev of None \<Rightarrow> False | Some c \<Rightarrow> is_word c) \<noteq>
     (case s of [] \<Rightarrow> False | c # _ \<Rightarrow> is_word c)"

text \<open>\<^verbatim>\<open>PRICE_RGX = re.compile(r"\$\s?(\d{1,3}(?:,\d{3})*(?:\.\d{2})?)", re.I)\<close>\<close>

definition PRICE_RGX :: regex where
  "PRICE_RGX prev =
     rx_group
       (rx_seq (rx_cls (\<lambda>c. c = CHR ''$'')) (rx_opt (rx_cls is_space)))
       (rx_seq (rx_rep 1 3 (rx_cls is_digit))
          (rx_seq (rx_star (rx_seq (rx_cls (\<lambda>c. c = CHR '','')) (rx_times 3 (rx_cls is_digit))))
                  (rx_opt (rx_seq (rx_cls (\<lambda>c. c = CHR ''.'')) (rx_times 2 (rx_cls is_digit))))))
       (rx_lit [])"

text \<open>\<^verbatim>\<open>QTY_RGX = re.compile(r"(\d{2,6}(?:,\d{3})?)\s*(?:sqft|sf|pcs|ctns?)", re.I)\<close>\<close>

definition QTY_RGX :: regex where
  "QTY_RGX prev =
     rx_group
       (rx_lit [])
       (rx_seq (rx_rep 2 6 (rx_cls is_digit))
               (rx_opt (rx_seq (rx_cls (\<lambda>c. c = CHR '','')) (rx_times 3 (rx_cls is_digit)))))
       (rx_seq (rx_star (rx_cls is_space))
          (rx_alt (rx_lit ''sqft'') (rx_alt (rx_lit ''sf'') (rx_alt (rx_lit ''pcs'')
             (rx_seq (rx_lit ''ctn'') (rx_opt (rx_lit ''s'')))))))"

text \<open>\<^verbatim>\<open>FOB_RGX = re.compile(r"\bFOB[:\-]?\s*([A-Za-z ]{2,40})", re.I)\<close>\<close>

definition FOB_RGX :: regex where
  "FOB_RGX prev s =
     (if word_boundary prev s then
        rx_group
          (rx_seq (rx_lit ''FOB'')
             (rx_seq (rx_opt (rx_cls (\<lambda>c. c = CHR '':'' \<or> c = CHR ''-''))) (rx_star (rx_cls is_space))))
          (rx_rep 2 40 (rx_cls (\<lambda>c. is_alpha c \<or> c = CHR '' '')))
          (rx_lit []) s
      else None)"

text \<open>
  \<^verbatim>\<open>EmailOfferPipeline._m\<close>: group 1 of the first match when the pattern has groups, the
  whole match when it has none, the empty string when nothing matches; stripped.
\<close>

definition m_rgx :: "regex \<Rightarrow> string \<Rightarrow> string" where
  "m_rgx rgx txt =
     (case rx_search rgx None txt of
        None \<Rightarrow> []
      | Some (g0, []) \<Rightarrow> strip g0
      | Some (g0, g1 # _) \<Rightarrow> strip g1)"

text \<open>
  \<^verbatim>\<open>SUBJ_CLEAN_RGX = re.compile(r"^(re:|fw:|fwd:)\s*", re.I)\<close>, and
  \<^verbatim>\<open>SUBJ_CLEAN_RGX.sub('', s)\<close>: the pattern is anchored at the start of the string, so
  at most one match is replaced, and what is left is the text after it.
\<close>

definition SUBJ_CLEAN_RGX :: matcher where
  "SUBJ_CLEAN_RGX =
     rx_seq (rx_alt (rx_lit ''re:'') (rx_alt (rx_lit ''fw:'') (rx_lit ''fwd:'')))
            (rx_star (rx_cls is_space))"

definition subj_clean_sub :: "string \<Rightarrow> string" where
  "subj_clean_sub s = (case SUBJ_CLEAN_RGX s of [] \<Rightarrow> s | r # _ \<Rightarrow> r)"

text \<open>\<^verbatim>\<open>EmailOfferPipeline._clean_subj\<close>\<close>

definition clean_subj :: "string \<Rightarrow> string" where
  "clean_subj s = strip (casefold (subj_clean_sub s))"

section \<open>Image classifier\<close>

text \<open>
  \<^verbatim>\<open>int(s)\<close> on a string: surrounding whitespace is dropped, one sign is allowed, and the
  digits may be grouped by single underscores. \<open>None\<close> is \<^verbatim>\<open>ValueError\<close>.
\<close>

definition digit_val :: "char \<Rightarrow> nat" where
  "digit_val c = of_char c - 48"

fun int_digits :: "nat \<Rightarrow> string \<Rightarrow> nat option" where
  "int_digits acc [] = Some acc"
| "int_digits acc [c] = (if is_digit c then Some (acc * 10 + digit_val c) else None)"
| "int_digits acc (c # d # cs) =
     (if is_digit c then int_digits (acc * 10 + digit_val c) (d # cs)
      else if c = CHR ''_'' \<and> is_digit d then int_digits acc (d # cs)
      else None)"

definition nat_literal :: "string \<Rightarrow> nat option" where
  "nat_literal s = (case s of [] \<Rightarrow> None | c # _ \<Rightarrow> if is_digit c then int_digits 0 s else None)"

definition py_int :: "string \<Rightarrow> int option" where
  "py_int s =
     (case strip s of
        [] \<Rightarrow> None
      | c # cs \<Rightarrow>
          if c = CHR ''-'' then map_option (\<lambda>n. - int n) (nat_literal cs)
          else if c = CHR ''+'' then map_option int (nat_literal cs)
          else map_option int (nat_literal (c # cs)))"

text \<open>\<^verbatim>\<open>s.replace('px', '')\<close>: every occurrence, scanning from the left.\<close>

fun remove_px :: "string \<Rightarrow> string" where
  "remove_px (c # d # cs) =
     (if c = CHR ''p'' \<and> d = CHR ''x'' then remove_px cs else c # remove_px (d # cs))"
| "remove_px cs = cs"

definition TRACKING_PIXEL_PATTERNS :: "string list" where
  "TRACKING_PIXEL_PATTERNS =
     [''s.gif'', ''spacer.gif'', ''pixel.gif'', ''blank.gif'', ''track.gif'',
      ''1x1.gif'', ''1x1.png'', ''beacon.gif'', ''clear.gif'', ''transparent.gif'',
      ''tracking'', ''analytics'', ''metric'', ''mailtrack'', ''emailtrack'',
      ''on.jsp'', ''track.jsp'', ''open.jsp'', ''click.jsp'',
      ''track.php'', ''open.php'', ''click.php'',
      ''track.aspx'', ''open.aspx'',
      ''/on/'', ''/track/'', ''/open/'', ''/click/'']"

definition TRACKING_EXTENSIONS :: "string list" where
  "TRACKING_EXTENSIONS = [''.jsp'', ''.php'', ''.aspx'', ''.cgi'', ''.pl'']"

definition MINIMUM_IMAGE_SIZE :: int where
  "MINIMUM_IMAGE_SIZE = 50"

definition tracking_domains :: "string list" where
  "tracking_domains =
     [''doubleclick'', ''googleadservices'', ''google-analytics'',
      ''facebook.com/tr'', ''amazon-adsystem'', ''list-manage.com/track'',
      ''constantcontact'', ''mailchimp'', ''sendgrid'', ''hubspot'',
      ''salesforce'', ''marketo'', ''eloqua'']"

definition tracking_params :: "string list" where
  "tracking_params = [''utm_'', ''mc_'', ''ml_'', ''et_'', ''fbclid'']"

text \<open>
  An \<^verbatim>\<open><img>\<close> tag is the map of its attributes; \<^verbatim>\<open>img_tag.get(k, '')\<close> is the value
  or the empty string.
\<close>

type_synonym img_tag = "string \<rightharpoonup> string"

definition tag_get :: "img_tag \<Rightarrow> string \<Rightarrow> string" where
  "tag_get t k = (case t k of None \<Rightarrow> [] | Some v \<Rightarrow> v)"

text \<open>
  \<^verbatim>\<open>int(width) if width else 999\<close>, for the attribute \<open>k\<close> with \<^verbatim>\<open>px\<close> removed;
  \<open>None\<close> when \<^verbatim>\<open>int\<close> raises.
\<close>

definition declared_dim :: "img_tag \<Rightarrow> string \<Rightarrow> int option" where
  "declared_dim t k = (let v = remove_px (tag_get t k) in if v \<noteq> [] then py_int v else Some 999)"

text \<open>
  The dimension check of \<^verbatim>\<open>is_tracking_pixel\<close> (the block under \<^verbatim>\<open>if img_tag:\<close>): its
  value is whether the block returns \<^verbatim>\<open>True\<close>. The width is converted first, then the
  height; the bare \<^verbatim>\<open>except\<close> swallows the failure of either conversion.
\<close>

definition dimension_check :: "img_tag option \<Rightarrow> bool" where
  "dimension_check img_tag =
     (case img_tag of
        None \<Rightarrow> False
      | Some t \<Rightarrow>
          (case declared_dim t ''width'' of
             None \<Rightarrow> False
           | Some w \<Rightarrow>
               (case declared_dim t ''height'' of
                  None \<Rightarrow> False
                | Some h \<Rightarrow> w < MINIMUM_IMAGE_SIZE \<or> h < MINIMUM_IMAGE_SIZE)))"

text \<open>
  \<^verbatim>\<open>is_tracking_pixel\<close>; \<open>url_path\<close> is \<^verbatim>\<open>urlparse(img_url).path\<close>, a function of the
  standard library.
\<close>

definition is_tracking_pixel :: "(string \<Rightarrow> string) \<Rightarrow> string \<Rightarrow> img_tag option \<Rightarrow> bool" where
  "is_tracking_pixel url_path img_url img_tag =
     (let url_lower = lower img_url; path = lower (url_path img_url) in
      if list_ex (\<lambda>pattern. str_in pattern url_lower) TRACKING_PIXEL_PATTERNS then True
      else if list_ex (\<lambda>ext. suffix ext path) TRACKING_EXTENSIONS then True
      else if dimension_check img_tag then True
      else if list_ex (\<lambda>domain. str_in domain url_lower) tracking_domains then True
      else if list_ex (\<lambda>param. str_in param url_lower) tracking_params then True
      else False)"

section \<open>Messages and the world outside the pipeline\<close>

text \<open>
  Exceptions, as far as the code tells them apart: \<^verbatim>\<open>_as_dt\<close> catches \<^verbatim>\<open>TypeError\<close> and
  \<^verbatim>\<open>ValueError\<close>, \<^verbatim>\<open>_save_imgs\<close> catches \<^verbatim>\<open>OSError\<close>, \<^verbatim>\<open>_body\<close> and \<^verbatim>\<open>process\<close> catch
  every \<^verbatim>\<open>Exception\<close>.
\<close>

datatype exn = TypeError | ValueError | OSError | OtherError

text \<open>
  One MIME part as \<^verbatim>\<open>msg.walk()\<close> yields it: \<^verbatim>\<open>get_content_type()\<close>, the headers
  \<^verbatim>\<open>Content-Disposition\<close> and \<^verbatim>\<open>Content-ID\<close> (\<open>None\<close> when absent), and
  \<^verbatim>\<open>get_payload(decode=True)\<close> (bytes, or \<open>None\<close>).
\<close>

record mime_part =
  content_type :: string
  content_disposition :: "string option"
  content_id :: "string option"
  payload :: "string option"

record message =
  hdr_message_id :: "string option"
  hdr_subject :: "string option"
  hdr_date :: "string option"
  hdr_from :: "string option"
  walk :: "mime_part list"

text \<open>
  One \<^verbatim>\<open>.eml\<close> file: \<^verbatim>\<open>f.stem\<close>, what opening and parsing it gives, and what
  \<^verbatim>\<open>f.read_bytes()\<close> gives.
\<close>

record eml_file =
  stem :: string
  opened :: "exn + message"
  read_bytes :: "exn + string"

text \<open>
  The library functions and the file system, taken as given. Timestamps are counted
  from \<^verbatim>\<open>datetime.min\<close> in UTC, so \<^verbatim>\<open>datetime.min.replace(tzinfo=timezone.utc)\<close> is 0.
  \<open>parsedate_utc ds\<close> is \<^verbatim>\<open>email.utils.parsedate_to_datetime(ds).astimezone(timezone.utc)\<close>;
  \<open>html_get_text h\<close> is \<^verbatim>\<open>BeautifulSoup(h, 'html.parser').get_text(' ', strip=True)\<close>;
  \<open>decode_ignore b\<close> is \<^verbatim>\<open>b.decode(errors='ignore')\<close>;
  \<open>image_write_error name data\<close> is the exception of writing that image file, if any;
  \<open>ledger_write_error ids\<close> is the exception of writing that ledger, if any.
\<close>

record env =
  md5_hexdigest :: "string \<Rightarrow> string"
  parsedate_utc :: "string \<Rightarrow> exn + nat"
  decode_ignore :: "string \<Rightarrow> string"
  html_get_text :: "string \<Rightarrow> exn + string"
  guess_extension :: "string \<Rightarrow> string option"
  parseaddr :: "string \<Rightarrow> string"
  image_write_error :: "string \<Rightarrow> string \<Rightarrow> exn option"
  ledger_write_error :: "string set \<Rightarrow> exn option"

record ProductOffer =
  title :: string
  category :: string
  product_description :: string
  price :: string
  fob_location :: string
  available_quantity :: string
  primary_image :: string
  more_images :: "string list"
  source_email :: string
  date_received :: string
  message_id :: string
  status :: string

text \<open>
  The pipeline object: the in-memory set \<^verbatim>\<open>self.seen\<close>, the ledger file
  \<^verbatim>\<open>self.hash_file\<close> (\<open>None\<close> while it does not exist) and the image folder.
\<close>

record pipeline =
  seen :: "string set"
  hash_file :: "string set option"
  image_dir :: "string \<rightharpoonup> string"

section \<open>The pipeline's methods\<close>

text \<open>\<^verbatim>\<open>_load_hashes\<close>\<close>

definition load_hashes :: "string set option \<Rightarrow> string set" where
  "load_hashes hf = (case hf of Some ids \<Rightarrow> ids | None \<Rightarrow> {})"

text \<open>\<^verbatim>\<open>_save_hash\<close>: the set is extended first, then the file is written.\<close>

definition save_hash :: "env \<Rightarrow> string \<Rightarrow> pipeline \<Rightarrow> pipeline \<times> exn option" where
  "save_hash E mid P =
     (let P' = P\<lparr>seen := insert mid (seen P)\<rparr> in
      case ledger_write_error E (seen P') of
        Some e \<Rightarrow> (P', Some e)
      | None \<Rightarrow> (P'\<lparr>hash_file := Some (seen P')\<rparr>, None))"

text \<open>\<^verbatim>\<open>_msg_id\<close>: \<^verbatim>\<open>if msg_id:\<close> is false for a missing header and for an empty one.\<close>

definition msg_id :: "env \<Rightarrow> message \<Rightarrow> eml_file \<Rightarrow> exn + string" where
  "msg_id E msg filepath =
     (case hdr_message_id msg of
        Some h \<Rightarrow>
          if h \<noteq> [] then Inr h
          else map_sum id (\<lambda>b. ''<'' @ md5_hexdigest E b @ ''>'') (read_bytes filepath)
      | None \<Rightarrow> map_sum id (\<lambda>b. ''<'' @ md5_hexdigest E b @ ''>'') (read_bytes filepath))"

text \<open>\<^verbatim>\<open>_as_dt\<close>\<close>

definition as_dt :: "env \<Rightarrow> string \<Rightarrow> exn + nat" where
  "as_dt E ds =
     (case parsedate_utc E ds of
        Inr t \<Rightarrow> Inr t
      | Inl e \<Rightarrow> if e = TypeError \<or> e = ValueError then Inr 0 else Inl e)"

text \<open>\<^verbatim>\<open>str(x)\<close> of a header value that may be \<^verbatim>\<open>None\<close>.\<close>

definition py_str :: "string option \<Rightarrow> string" where
  "py_str v = (case v of None \<Rightarrow> ''None'' | Some s \<Rightarrow> s)"

text \<open>
  \<^verbatim>\<open>_body\<close>: the loop over the parts, with \<^verbatim>\<open>(html_body, plain_body)\<close> as its state.
  A payload that is \<^verbatim>\<open>None\<close> makes \<^verbatim>\<open>.decode\<close> raise, which the loop swallows.
\<close>

fun body_loop :: "env \<Rightarrow> mime_part list \<Rightarrow> string \<times> string \<Rightarrow> string \<times> string" where
  "body_loop E [] hp = hp"
| "body_loop E (part # parts) (html_body, plain_body) =
     (if str_in ''attachment'' (py_str (content_disposition part))
        then body_loop E parts (html_body, plain_body)
      else if content_type part = ''text/html'' \<and> html_body = [] then
        (case payload part of
           None \<Rightarrow> body_loop E parts (html_body, plain_body)
         | Some b \<Rightarrow> body_loop E parts (decode_ignore E b, plain_body))
      else if content_type part = ''text/plain'' \<and> plain_body = [] then
        (case payload part of
           None \<Rightarrow> body_loop E parts (html_body, plain_body)
         | Some b \<Rightarrow> body_loop E parts (html_body, decode_ignore E b))
      else body_loop E parts (html_body, plain_body))"

definition body :: "env \<Rightarrow> message \<Rightarrow> exn + string" where
  "body E msg =
     (case body_loop E (walk msg) ([], []) of
        (html_body, plain_body) \<Rightarrow>
          if html_body \<noteq> [] then html_get_text E html_body else Inr plain_body)"

text \<open>\<^verbatim>\<open>part.get_content_maintype()\<close>: the content type up to the slash.\<close>

definition content_maintype :: "mime_part \<Rightarrow> string" where
  "content_maintype part = takeWhile (\<lambda>c. c \<noteq> CHR ''/'') (content_type part)"

text \<open>The file name \<^verbatim>\<open>_save_imgs\<close> gives to an image part with payload \<open>img_data\<close>.\<close>

definition img_filename :: "env \<Rightarrow> mime_part \<Rightarrow> string \<Rightarrow> string" where
  "img_filename E part img_data =
     (let cid = strip_with (\<lambda>c. c = CHR ''<'' \<or> c = CHR ''>'')
                  (case content_id part of None \<Rightarrow> [] | Some v \<Rightarrow> v);
          ext = (case guess_extension E (content_type part) of
                   None \<Rightarrow> ''.bin''
                 | Some x \<Rightarrow> if x \<noteq> [] then x else ''.bin'')
      in if cid \<noteq> [] then cid @ ext else ''img_'' @ md5_hexdigest E img_data @ ext)"

text \<open>
  \<^verbatim>\<open>_save_imgs\<close>: the loop over the parts, with the image folder and \<^verbatim>\<open>saved_images\<close>
  as its state. An \<^verbatim>\<open>OSError\<close> of the write is logged and the loop goes on; any other
  exception leaves the method.
\<close>

fun save_imgs_loop ::
  "env \<Rightarrow> mime_part list \<Rightarrow> (string \<rightharpoonup> string) \<Rightarrow> string list \<Rightarrow> (string \<rightharpoonup> string) \<times> (exn + string list)" where
  "save_imgs_loop E [] dir saved_images = (dir, Inr saved_images)"
| "save_imgs_loop E (part # parts) dir saved_images =
     (if content_maintype part = ''image'' then
        (case payload part of
           None \<Rightarrow> save_imgs_loop E parts dir saved_images
         | Some img_data \<Rightarrow>
             if img_data = [] then save_imgs_loop E parts dir saved_images
             else
               let filename = img_filename E part img_data in
               (case image_write_error E filename img_data of
                  None \<Rightarrow> save_imgs_loop E parts (dir(filename \<mapsto> img_data)) (saved_images @ [filename])
                | Some e \<Rightarrow>
                    if e = OSError then save_imgs_loop E parts dir saved_images
                    else (dir, Inl e)))
      else save_imgs_loop E parts dir saved_images)"

definition save_imgs :: "env \<Rightarrow> message \<Rightarrow> (string \<rightharpoonup> string) \<Rightarrow> (string \<rightharpoonup> string) \<times> (exn + string list)" where
  "save_imgs E msg dir = save_imgs_loop E (walk msg) dir []"

section \<open>The run\<close>

text \<open>
  The body of the \<^verbatim>\<open>try\<close> in \<^verbatim>\<open>process\<close> up to the construction of the offer. The
  result is the pipeline (only its image folder can have changed) and either the
  exception raised, or \<open>None\<close> for a message that is already seen (\<^verbatim>\<open>continue\<close>), or the
  key, the parsed date and the offer. The offer's \<open>message_id\<close> is \<^verbatim>\<open>mid\<close>.
\<close>

definition build_offer ::
  "env \<Rightarrow> eml_file \<Rightarrow> pipeline \<Rightarrow> pipeline \<times> (exn + (string \<times> nat \<times> ProductOffer) option)" where
  "build_offer E f P =
     (case opened f of
        Inl e \<Rightarrow> (P, Inl e)
      | Inr msg \<Rightarrow>
     (case msg_id E msg f of
        Inl e \<Rightarrow> (P, Inl e)
      | Inr mid \<Rightarrow>
     if mid \<in> seen P then (P, Inr None)
     else
       let subj = (case hdr_subject msg of None \<Rightarrow> stem f | Some s \<Rightarrow> if s \<noteq> [] then s else stem f);
           key = clean_subj subj;
           dt_raw = (case hdr_date msg of None \<Rightarrow> [] | Some d \<Rightarrow> d)
       in
     (case as_dt E dt_raw of
        Inl e \<Rightarrow> (P, Inl e)
      | Inr dt \<Rightarrow>
     (case body E msg of
        Inl e \<Rightarrow> (P, Inl e)
      | Inr b \<Rightarrow>
     (case save_imgs E msg (image_dir P) of
        (dir, Inl e) \<Rightarrow> (P\<lparr>image_dir := dir\<rparr>, Inl e)
      | (dir, Inr imgs) \<Rightarrow>
          (P\<lparr>image_dir := dir\<rparr>,
           Inr (Some (key, dt,
             \<lparr>title = subj,
              category = cat subj b,
              product_description = b,
              price = m_rgx PRICE_RGX b,
              fob_location = m_rgx FOB_RGX b,
              available_quantity = m_rgx QTY_RGX b,
              primary_image = (case imgs of [] \<Rightarrow> [] | i # _ \<Rightarrow> i),
              more_images = (if length imgs > 1 then tl imgs else []),
              source_email = parseaddr E (case hdr_from msg of None \<Rightarrow> [] | Some a \<Rightarrow> a),
              date_received = dt_raw,
              message_id = mid,
              status = ''Unreviewed''\<rparr>))))))))"

text \<open>
  \<^verbatim>\<open>latest\<close> is a Python dict: \<^verbatim>\<open>list(latest.values())\<close> follows the order in which the
  keys were first inserted, and assigning to a key that is present keeps its place. It is
  an association list changed by \<^const>\<open>AList.update\<close>, which does the same.

  The dedup step: \<^verbatim>\<open>prev = latest.get(key)\<close> and the conditional assignment. The date of
  the retained offer is parsed again from its \<open>date_received\<close>.
\<close>

definition keep_latest ::
  "env \<Rightarrow> string \<Rightarrow> nat \<Rightarrow> ProductOffer \<Rightarrow> (string \<times> ProductOffer) list
     \<Rightarrow> exn + (string \<times> ProductOffer) list" where
  "keep_latest E key dt offer latest =
     (case map_of latest key of
        None \<Rightarrow> Inr (AList.update key offer latest)
      | Some prev \<Rightarrow>
          (case as_dt E (date_received prev) of
             Inl e \<Rightarrow> Inl e
           | Inr prev_dt \<Rightarrow> Inr (if dt > prev_dt then AList.update key offer latest else latest)))"

record run_state =
  pipe :: pipeline
  latest :: "(string \<times> ProductOffer) list"
  new_offers_count :: nat

datatype outcome = SkippedAsSeen | Parsed | Failed exn

text \<open>One round of the loop of \<^verbatim>\<open>process\<close>, with its \<^verbatim>\<open>except Exception\<close>.\<close>

definition process_file :: "env \<Rightarrow> eml_file \<Rightarrow> run_state \<Rightarrow> run_state \<times> outcome" where
  "process_file E f st =
     (case build_offer E f (pipe st) of
        (P, Inl e) \<Rightarrow> (st\<lparr>pipe := P\<rparr>, Failed e)
      | (P, Inr None) \<Rightarrow> (st\<lparr>pipe := P\<rparr>, SkippedAsSeen)
      | (P, Inr (Some (key, dt, offer))) \<Rightarrow>
          (case keep_latest E key dt offer (latest st) of
             Inl e \<Rightarrow> (st\<lparr>pipe := P\<rparr>, Failed e)
           | Inr latest' \<Rightarrow>
               (case save_hash E (message_id offer) P of
                  (P', Some e) \<Rightarrow> (st\<lparr>pipe := P', latest := latest'\<rparr>, Failed e)
                | (P', None) \<Rightarrow>
                    (st\<lparr>pipe := P', latest := latest',
                        new_offers_count := Suc (new_offers_count st)\<rparr>, Parsed))))"

fun process_loop :: "env \<Rightarrow> eml_file list \<Rightarrow> run_state \<Rightarrow> run_state" where
  "process_loop E [] st = st"
| "process_loop E (f # files) st = process_loop E files (fst (process_file E f st))"

text \<open>
  What \<^verbatim>\<open>process\<close> does at its end: nothing (\<^verbatim>\<open>No new offers\<close>), or the list it hands to
  \<^verbatim>\<open>json.dumps\<close> for the output file.
\<close>

datatype result = NoNewOffers | WroteOffers "ProductOffer list"

definition start_state :: "pipeline \<Rightarrow> run_state" where
  "start_state P = \<lparr>pipe = P, latest = [], new_offers_count = 0\<rparr>"

definition process :: "env \<Rightarrow> pipeline \<Rightarrow> eml_file list \<Rightarrow> pipeline \<times> result" where
  "process E P files =
     (let st = process_loop E files (start_state P) in
      (pipe st, if latest st = [] then NoNewOffers else WroteOffers (map snd (latest st))))"

text \<open>\<^verbatim>\<open>EmailOfferPipeline.__init__\<close>: the seen set is loaded from the ledger file.\<close>

definition init_pipeline :: "string set option \<Rightarrow> (string \<rightharpoonup> string) \<Rightarrow> pipeline" where
  "init_pipeline hf dir = \<lparr>seen = load_hashes hf, hash_file = hf, image_dir = dir\<rparr>"

section \<open>Observing a run\<close>

text \<open>The outcome of every file of a run, in order.\<close>

fun outcomes :: "env \<Rightarrow> eml_file list \<Rightarrow> run_state \<Rightarrow> outcome list" where
  "outcomes E [] st = []"
| "outcomes E (f # files) st =
     snd (process_file E f st) # outcomes E files (fst (process_file E f st))"

text \<open>The offers built during a run, in order: one for each message that reaches the dedup step.\<close>

fun candidates :: "env \<Rightarrow> eml_file list \<Rightarrow> run_state \<Rightarrow> ProductOffer list" where
  "candidates E [] st = []"
| "candidates E (f # files) st =
     (case snd (build_offer E f (pipe st)) of
        Inr (Some (key, dt, offer)) \<Rightarrow> [offer]
      | _ \<Rightarrow> []) @ candidates E files (fst (process_file E f st))"

section \<open>A sample world\<close>

text \<open>
  Stand-ins for the library functions, for evaluating the definitions at concrete
  inputs. Each agrees with the library at the inputs used below: the MD5 digests of
  \<^verbatim>\<open>a\<close> and of the empty string, the three image types, dates as microseconds since
  \<^verbatim>\<open>datetime.min\<close>; the date of the last second of year 9999 at \<^verbatim>\<open>-0100\<close> overflows
  in \<^verbatim>\<open>astimezone\<close> (an \<^verbatim>\<open>OverflowError\<close>, which \<^verbatim>\<open>_as_dt\<close> does not catch).
\<close>

definition sample_md5 :: "string \<Rightarrow> string" where
  "sample_md5 b =
     (if b = ''a'' then ''0cc175b9c0f1b6a831c399e269772661''
      else ''d41d8cd98f00b204e9800998ecf8427e'')"

definition sample_parsedate :: "string \<Rightarrow> exn + nat" where
  "sample_parsedate ds =
     (if ds = ''Mon, 01 Jan 2024 10:00:00 +0000'' then Inr 63839700000000000
      else if ds = ''Tue, 02 Jan 2024 10:00:00 +0000'' then Inr 63839786400000000
      else if ds = ''Fri, 31 Dec 9999 23:59:59 -0100'' then Inl OtherError
      else Inl ValueError)"

fun drop_tags :: "bool \<Rightarrow> string \<Rightarrow> string" where
  "drop_tags in_tag [] = []"
| "drop_tags in_tag (c # cs) =
     (if c = CHR ''<'' then drop_tags True cs
      else if c = CHR ''>'' then drop_tags False cs
      else if in_tag then drop_tags in_tag cs
      else c # drop_tags in_tag cs)"

definition sample_guess_extension :: "string \<Rightarrow> string option" where
  "sample_guess_extension t =
     (if t = ''image/png'' then Some ''.png''
      else if t = ''image/jpeg'' then Some ''.jpg''
      else if t = ''image/gif'' then Some ''.gif''
      else None)"

definition sample_env :: env where
  "sample_env =
     \<lparr>md5_hexdigest = sample_md5,
      parsedate_utc = sample_parsedate,
      decode_ignore = (\<lambda>b. b),
      html_get_text = (\<lambda>h. Inr (strip (drop_tags False h))),
      guess_extension = sample_guess_extension,
      parseaddr = (\<lambda>a. a),
      image_write_error = (\<lambda>name data. None),
      ledger_write_error = (\<lambda>ids. None)\<rparr>"

definition sample_part :: "string \<Rightarrow> string option \<Rightarrow> string option \<Rightarrow> mime_part" where
  "sample_part ctype cid data =
     \<lparr>content_type = ctype, content_disposition = None, content_id = cid, payload = data\<rparr>"

definition sample_file :: "string \<Rightarrow> string option \<Rightarrow> string option \<Rightarrow> string option \<Rightarrow> mime_part list \<Rightarrow> eml_file" where
  "sample_file name mid subj dt parts =
     \<lparr>stem = name,
      opened = Inr \<lparr>hdr_message_id = mid, hdr_subject = subj, hdr_date = dt,
                    hdr_from = Some ''sales@example.com'', walk = parts\<rparr>,
      read_bytes = Inr ''a''\<rparr>"

section \<open>Notions used in the statements and proofs\<close>

text \<open>
  What a matcher consumes: \<open>eats P m\<close> says that every match of \<open>m\<close> removes, from
  the front of the text, characters that all satisfy \<open>P\<close>; \<open>spans lo hi m\<close> bounds
  how many it removes.
\<close>

definition eats :: "(char \<Rightarrow> bool) \<Rightarrow> matcher \<Rightarrow> bool" where
  "eats P m \<longleftrightarrow> (\<forall>s r. r \<in> set (m s) \<longrightarrow> (\<exists>u. s = u @ r \<and> list_all P u))"



text \<open>
  The text of the first part of content type \<open>ctype\<close> that is not an attachment, has a
  payload and decodes to a text that is not empty; the empty string when there is none.
\<close>

fun first_text :: "env \<Rightarrow> string \<Rightarrow> mime_part list \<Rightarrow> string" where
  "first_text E ctype [] = []"
| "first_text E ctype (part # parts) =
     (case (if str_in ''attachment'' (py_str (content_disposition part)) \<or> content_type part \<noteq> ctype
            then None else payload part) of
        None \<Rightarrow> first_text E ctype parts
      | Some b \<Rightarrow> if decode_ignore E b \<noteq> [] then decode_ignore E b else first_text E ctype parts)"

text \<open>
  Body selection in the words of the specification: the candidate of a content type is
  the first part of that type that is not an attachment and can be decoded, whatever it
  decodes to; the HTML candidate is used if there is one, else the plain candidate,
  else the empty string.
\<close>

definition candidate_part :: "string \<Rightarrow> mime_part list \<Rightarrow> string option" where
  "candidate_part ctype parts =
     (case List.find (\<lambda>part. \<not> str_in ''attachment'' (py_str (content_disposition part)) \<and>
                             content_type part = ctype \<and> payload part \<noteq> None) parts of
        None \<Rightarrow> None
      | Some part \<Rightarrow> payload part)"

definition body_as_specified :: "env \<Rightarrow> message \<Rightarrow> exn + string" where
  "body_as_specified E msg =
     (case candidate_part ''text/html'' (walk msg) of
        Some b \<Rightarrow> html_get_text E (decode_ignore E b)
      | None \<Rightarrow>
          (case candidate_part ''text/plain'' (walk msg) of
             Some b \<Rightarrow> Inr (decode_ignore E b)
           | None \<Rightarrow> Inr []))"

text \<open>The dedup key and the parsed date of an offer, as the dedup step computes them.\<close>

definition offer_key :: "ProductOffer \<Rightarrow> string" where
  "offer_key offer = clean_subj (title offer)"

definition offer_dt :: "env \<Rightarrow> ProductOffer \<Rightarrow> nat" where
  "offer_dt E offer = (case as_dt E (date_received offer) of Inr t \<Rightarrow> t | Inl e \<Rightarrow> 0)"

text \<open>The elements of a list in the order of their first appearance.\<close>

fun first_seen :: "'a list \<Rightarrow> 'a list" where
  "first_seen [] = []"
| "first_seen (k # ks) = k # filter (\<lambda>x. x \<noteq> k) (first_seen ks)"

text \<open>The dedup step applied to an offer, leaving the map alone where the step raises.\<close>

definition merge_offer :: "env \<Rightarrow> (string \<times> ProductOffer) list \<Rightarrow> ProductOffer \<Rightarrow> (string \<times> ProductOffer) list" where
  "merge_offer E L offer =
     (case keep_latest E (offer_key offer) (offer_dt E offer) offer L of
        Inr L' \<Rightarrow> L'
      | Inl e \<Rightarrow> L)"


text \<open>
  The invariant of the candidate map: one entry per key, every entry filed under the key
  of its offer, and the date of every entry one that \<^verbatim>\<open>_as_dt\<close> has accepted.
\<close>

definition wf_latest :: "env \<Rightarrow> (string \<times> ProductOffer) list \<Rightarrow> bool" where
  "wf_latest E L \<longleftrightarrow>
     distinct (map fst L) \<and>
     (\<forall>(k, prev)\<in>set L. k = offer_key prev \<and> (\<exists>t. as_dt E (date_received prev) = Inr t))"

text \<open>The offer built in the sample world from a sample file without parts.\<close>

definition sample_offer :: "string \<Rightarrow> string \<Rightarrow> string \<Rightarrow> ProductOffer" where
  "sample_offer mid subj d =
     \<lparr>title = subj, category = cat subj [], product_description = [],
      price = m_rgx PRICE_RGX [], fob_location = m_rgx FOB_RGX [],
      available_quantity = m_rgx QTY_RGX [], primary_image = [], more_images = [],
      source_email = ''sales@example.com'', date_received = d, message_id = mid,
      status = ''Unreviewed''\<rparr>"

text \<open>
  Three sample messages: two offers with the same normalized subject, the later one a
  reply, and, between them, a message whose date overflows.
\<close>

definition sample_first :: eml_file where
  "sample_first = sample_file ''offer1'' (Some ''<m1@example.com>'') (Some ''Offer: SPC Flooring'')
     (Some ''Mon, 01 Jan 2024 10:00:00 +0000'') []"

definition sample_other :: eml_file where
  "sample_other = sample_file ''offer2'' (Some ''<m2@example.com>'') (Some ''Tile closeout'')
     (Some ''Mon, 01 Jan 2024 10:00:00 +0000'') []"

definition sample_reply :: eml_file where
  "sample_reply = sample_file ''offer3'' (Some ''<m3@example.com>'') (Some ''RE: offer: SPC Flooring'')
     (Some ''Tue, 02 Jan 2024 10:00:00 +0000'') []"

definition sample_broken :: eml_file where
  "sample_broken = sample_file ''offer9'' (Some ''<m9@example.com>'') (Some ''Offer'')
     (Some ''Fri, 31 Dec 9999 23:59:59 -0100'') []"

definition sample_start :: run_state where
  "sample_start = start_state (init_pipeline None Map.empty)"

abbreviation sample_offer1 :: ProductOffer where
  "sample_offer1 \<equiv>
     sample_offer ''<m1@example.com>'' ''Offer: SPC Flooring'' ''Mon, 01 Jan 2024 10:00:00 +0000''"

abbreviation sample_offer2 :: ProductOffer where
  "sample_offer2 \<equiv>
     sample_offer ''<m2@example.com>'' ''Tile closeout'' ''Mon, 01 Jan 2024 10:00:00 +0000''"

abbreviation sample_offer3 :: ProductOffer where
  "sample_offer3 \<equiv>
     sample_offer ''<m3@example.com>'' ''RE: offer: SPC Flooring'' ''Tue, 02 Jan 2024 10:00:00 +0000''"

text \<open>A state of the loop in which the ledger file holds the seen set.\<close>

definition sample_state :: "string set \<Rightarrow> (string \<times> ProductOffer) list \<Rightarrow> nat \<Rightarrow> run_state" where
  "sample_state ids L n =
     \<lparr>pipe = \<lparr>seen = ids, hash_file = Some ids, image_dir = Map.empty\<rparr>,
      latest = L, new_offers_count = n\<rparr>"

text \<open>The ledger file holds exactly the seen set.\<close>

definition ledger_in_sync :: "pipeline \<Rightarrow> bool" where
  "ledger_in_sync P \<longleftrightarrow> load_hashes (hash_file P) = seen P"

text \<open>
  A file is settled for a set of identities when, with those identities seen, the
  loop builds no offer from it: it is skipped or fails before the offer is built.
\<close>

definition settled :: "env \<Rightarrow> string set \<Rightarrow> eml_file \<Rightarrow> bool" where
  "settled E ids f \<longleftrightarrow>
     (\<forall>P. ids \<subseteq> seen P \<longrightarrow> (\<forall>c. snd (build_offer E f P) \<noteq> Inr (Some c)))"

section \<open>Properties\<close>

lemma lower_append: "lower (a @ b) = lower a @ lower b" by (simp add: lower_def)

lemma cat_cong:
  assumes "lower sub' = lower sub" and "lower bod' = lower bod"
  shows "cat sub' bod' = cat sub bod"
proof -
  have "lower (sub' @ '' '' @ bod') = lower (sub @ '' '' @ bod)"
    using assms by (simp only: lower_append)
  then show ?thesis by (simp only: cat_def)
qed

subsection \<open>Category\<close>

text \<open>
  C7. The category is decided by a case-insensitive keyword scan over the subject, a
  space and the body, in the fixed order SPC, LVT, Laminate, Tile, Solid and Hardwood
  together, Other: the first rule that matches wins, whatever else occurs in the text.
  In particular a text with both \<^verbatim>\<open>spc\<close> and \<^verbatim>\<open>tile\<close> is \<^verbatim>\<open>SPC Flooring\<close>. Two inputs
  that differ only in letter case get the same category.
\<close>

theorem cat_priority:
  fixes sub bod :: string
  defines "t \<equiv> lower (sub @ '' '' @ bod)"
  shows "(str_in ''spc'' t \<longrightarrow> cat sub bod = ''SPC Flooring'') \<and>
   (\<not> str_in ''spc'' t \<and> str_in ''lvt'' t \<longrightarrow> cat sub bod = ''LVT Flooring'') \<and>
   (\<not> str_in ''spc'' t \<and> \<not> str_in ''lvt'' t \<and> str_in ''laminate'' t
      \<longrightarrow> cat sub bod = ''Laminate Flooring'') \<and>
   (\<not> str_in ''spc'' t \<and> \<not> str_in ''lvt'' t \<and> \<not> str_in ''laminate'' t \<and> str_in ''tile'' t
      \<longrightarrow> cat sub bod = ''Tile'') \<and>
   (\<not> str_in ''spc'' t \<and> \<not> str_in ''lvt'' t \<and> \<not> str_in ''laminate'' t \<and> \<not> str_in ''tile'' t \<and>
    str_in ''solid'' t \<and> str_in ''hardwood'' t \<longrightarrow> cat sub bod = ''Solid Hardwood'') \<and>
   (\<not> str_in ''spc'' t \<and> \<not> str_in ''lvt'' t \<and> \<not> str_in ''laminate'' t \<and> \<not> str_in ''tile'' t \<and>
    \<not> (str_in ''solid'' t \<and> str_in ''hardwood'' t) \<longrightarrow> cat sub bod = ''Other'') \<and>
   (str_in ''spc'' t \<and> str_in ''tile'' t \<longrightarrow> cat sub bod = ''SPC Flooring'') \<and>
   (\<forall>sub' bod'. lower sub' = lower sub \<and> lower bod' = lower bod \<longrightarrow> cat sub' bod' = cat sub bod)"
proof -
  have branches: "cat sub bod =
     (if str_in ''spc'' t then ''SPC Flooring''
      else if str_in ''lvt'' t then ''LVT Flooring''
      else if str_in ''laminate'' t then ''Laminate Flooring''
      else if str_in ''tile'' t then ''Tile''
      else if str_in ''solid'' t \<and> str_in ''hardwood'' t then ''Solid Hardwood''
      else ''Other'')"
    unfolding t_def cat_def Let_def by (rule refl)
  have ci: "\<forall>sub' bod'. lower sub' = lower sub \<and> lower bod' = lower bod \<longrightarrow> cat sub' bod' = cat sub bod"
    using cat_cong by blast
  from branches ci show ?thesis by presburger
qed

theorem cat_priority_witness:
  "cat ''New SPC batch'' ''stone-look tile, 5mm'' = ''SPC Flooring'' \<and>
   cat ''Closeout'' ''LVT and laminate'' = ''LVT Flooring'' \<and>
   cat ''Laminate tile look'' ''12mm'' = ''Laminate Flooring'' \<and>
   cat ''Porcelain'' ''TILE 24x24'' = ''Tile'' \<and>
   cat ''Solid oak'' ''3/4 hardwood'' = ''Solid Hardwood'' \<and>
   cat ''Solid oak'' ''engineered'' = ''Other'' \<and>
   cat ''NEW SPC BATCH'' ''Stone-Look Tile, 5MM'' = cat ''New SPC batch'' ''stone-look tile, 5mm''"
proof -
  have ev: "str_in ''spc'' (lower (''New SPC batch'' @ '' '' @ ''stone-look tile, 5mm''))"
    "str_in ''tile'' (lower (''New SPC batch'' @ '' '' @ ''stone-look tile, 5mm''))"
    "lower ''NEW SPC BATCH'' = lower ''New SPC batch''"
    "lower ''Stone-Look Tile, 5MM'' = lower ''stone-look tile, 5mm''"
    by code_simp+
  have e2: "\<not> str_in ''spc'' (lower (''Closeout'' @ '' '' @ ''LVT and laminate''))"
     "str_in ''lvt'' (lower (''Closeout'' @ '' '' @ ''LVT and laminate''))" by code_simp+
  have e3: "\<not> str_in ''spc'' (lower (''Laminate tile look'' @ '' '' @ ''12mm''))"
     "\<not> str_in ''lvt'' (lower (''Laminate tile look'' @ '' '' @ ''12mm''))"
     "str_in ''laminate'' (lower (''Laminate tile look'' @ '' '' @ ''12mm''))" by code_simp+
  have e4: "\<not> str_in ''spc'' (lower (''Porcelain'' @ '' '' @ ''TILE 24x24''))"
     "\<not> str_in ''lvt'' (lower (''Porcelain'' @ '' '' @ ''TILE 24x24''))"
     "\<not> str_in ''laminate'' (lower (''Porcelain'' @ '' '' @ ''TILE 24x24''))"
     "str_in ''tile'' (lower (''Porcelain'' @ '' '' @ ''TILE 24x24''))" by code_simp+
  have e5: "\<not> str_in ''spc'' (lower (''Solid oak'' @ '' '' @ ''3/4 hardwood''))"
     "\<not> str_in ''lvt'' (lower (''Solid oak'' @ '' '' @ ''3/4 hardwood''))"
     "\<not> str_in ''laminate'' (lower (''Solid oak'' @ '' '' @ ''3/4 hardwood''))"
     "\<not> str_in ''tile'' (lower (''Solid oak'' @ '' '' @ ''3/4 hardwood''))"
     "str_in ''solid'' (lower (''Solid oak'' @ '' '' @ ''3/4 hardwood''))"
     "str_in ''hardwood'' (lower (''Solid oak'' @ '' '' @ ''3/4 hardwood''))" by code_simp+
  have e6: "\<not> str_in ''spc'' (lower (''Solid oak'' @ '' '' @ ''engineered''))"
     "\<not> str_in ''lvt'' (lower (''Solid oak'' @ '' '' @ ''engineered''))"
     "\<not> str_in ''laminate'' (lower (''Solid oak'' @ '' '' @ ''engineered''))"
     "\<not> str_in ''tile'' (lower (''Solid oak'' @ '' '' @ ''engineered''))"
     "\<not> str_in ''hardwood'' (lower (''Solid oak'' @ '' '' @ ''engineered''))" by code_simp+
  have w1: "cat ''New SPC batch'' ''stone-look tile, 5mm'' = ''SPC Flooring''"
    using cat_priority [of "''New SPC batch''" "''stone-look tile, 5mm''"] ev(1,2) by blast
  have w7: "cat ''NEW SPC BATCH'' ''Stone-Look Tile, 5MM'' = cat ''New SPC batch'' ''stone-look tile, 5mm''"
    using cat_priority [of "''New SPC batch''" "''stone-look tile, 5mm''"] ev(3,4) by blast
  have w2: "cat ''Closeout'' ''LVT and laminate'' = ''LVT Flooring''"
    using cat_priority [of "''Closeout''" "''LVT and laminate''"] e2 by blast
  have w3: "cat ''Laminate tile look'' ''12mm'' = ''Laminate Flooring''"
    using cat_priority [of "''Laminate tile look''" "''12mm''"] e3 by blast
  have w4: "cat ''Porcelain'' ''TILE 24x24'' = ''Tile''"
    using cat_priority [of "''Porcelain''" "''TILE 24x24''"] e4 by blast
  have w5: "cat ''Solid oak'' ''3/4 hardwood'' = ''Solid Hardwood''"
    using cat_priority [of "''Solid oak''" "''3/4 hardwood''"] e5 by blast
  have w6: "cat ''Solid oak'' ''engineered'' = ''Other''"
    using cat_priority [of "''Solid oak''" "''engineered''"] e6 by blast
  from w1 w2 w3 w4 w5 w6 w7 show ?thesis by (intro conjI)
qed

subsection \<open>Message identity\<close>

text \<open>
  C3, as stated: the identity is the \<^verbatim>\<open>Message-ID\<close> header whenever the header is present.
  It fails for a header that is present and empty: the code then takes the digest of
  the file.
\<close>

theorem msg_id_empty_header_counterexample:
  "hdr_message_id \<lparr>hdr_message_id = Some [], hdr_subject = None, hdr_date = None,
                    hdr_from = None, walk = []\<rparr> = Some [] \<and>
   msg_id sample_env
     \<lparr>hdr_message_id = Some [], hdr_subject = None, hdr_date = None, hdr_from = None, walk = []\<rparr>
     \<lparr>stem = ''offer'', opened = Inl OSError, read_bytes = Inr ''a''\<rparr>
   = Inr ''<0cc175b9c0f1b6a831c399e269772661>'' \<and>
   msg_id sample_env
     \<lparr>hdr_message_id = Some [], hdr_subject = None, hdr_date = None, hdr_from = None, walk = []\<rparr>
     \<lparr>stem = ''offer'', opened = Inl OSError, read_bytes = Inr ''a''\<rparr>
   \<noteq> Inr []"
  by (simp add: msg_id_def sample_env_def sample_md5_def)

text \<open>
  C3, amended. The identity is the \<^verbatim>\<open>Message-ID\<close> header when the header is present and
  not empty. Otherwise (the header is missing or empty) it is \<^verbatim>\<open><\<close>, the MD5 digest of
  the bytes of the file, \<^verbatim>\<open>>\<close>; if the file cannot be read, the read's exception is
  raised. In the fallback case the identity depends on the bytes only: two messages
  without a usable header and with the same bytes get the same identity.
\<close>

theorem msg_id_identity:
  "(hdr_message_id msg = Some h \<and> h \<noteq> [] \<longrightarrow> msg_id E msg f = Inr h) \<and>
   ((hdr_message_id msg = None \<or> hdr_message_id msg = Some []) \<and> read_bytes f = Inr b
      \<longrightarrow> msg_id E msg f = Inr (''<'' @ md5_hexdigest E b @ ''>'')) \<and>
   ((hdr_message_id msg = None \<or> hdr_message_id msg = Some []) \<and> read_bytes f = Inl e
      \<longrightarrow> msg_id E msg f = Inl e) \<and>
   ((hdr_message_id msg = None \<or> hdr_message_id msg = Some []) \<and>
    (hdr_message_id msg' = None \<or> hdr_message_id msg' = Some []) \<and>
    read_bytes f = read_bytes f' \<longrightarrow> msg_id E msg f = msg_id E msg' f')"
  by (auto simp: msg_id_def split: option.splits)

theorem msg_id_identity_witness:
  "msg_id sample_env
     \<lparr>hdr_message_id = Some ''<m1@example.com>'', hdr_subject = None, hdr_date = None,
      hdr_from = None, walk = []\<rparr>
     \<lparr>stem = ''offer'', opened = Inl OSError, read_bytes = Inr ''a''\<rparr>
   = Inr ''<m1@example.com>'' \<and>
   msg_id sample_env
     \<lparr>hdr_message_id = None, hdr_subject = None, hdr_date = None, hdr_from = None, walk = []\<rparr>
     \<lparr>stem = ''offer'', opened = Inl OSError, read_bytes = Inr ''a''\<rparr>
   = Inr ''<0cc175b9c0f1b6a831c399e269772661>'' \<and>
   msg_id sample_env
     \<lparr>hdr_message_id = None, hdr_subject = None, hdr_date = None, hdr_from = None, walk = []\<rparr>
     \<lparr>stem = ''offer'', opened = Inl OSError, read_bytes = Inl OSError\<rparr>
   = Inl OSError \<and>
   msg_id sample_env
     \<lparr>hdr_message_id = None, hdr_subject = None, hdr_date = None, hdr_from = None, walk = []\<rparr>
     \<lparr>stem = ''offer'', opened = Inl OSError, read_bytes = Inr ''a''\<rparr>
   = msg_id sample_env
     \<lparr>hdr_message_id = Some [], hdr_subject = Some ''copy'', hdr_date = None, hdr_from = None, walk = []\<rparr>
     \<lparr>stem = ''copy'', opened = Inl OSError, read_bytes = Inr ''a''\<rparr>"
proof -
  let ?m1 = "\<lparr>hdr_message_id = Some ''<m1@example.com>'', hdr_subject = None, hdr_date = None,
      hdr_from = None, walk = []\<rparr>"
  let ?m0 = "\<lparr>hdr_message_id = None, hdr_subject = None, hdr_date = None, hdr_from = None, walk = []\<rparr>"
  let ?m2 = "\<lparr>hdr_message_id = Some [], hdr_subject = Some ''copy'', hdr_date = None, hdr_from = None, walk = []\<rparr>"
  let ?f = "\<lparr>stem = ''offer'', opened = Inl OSError, read_bytes = Inr ''a''\<rparr>"
  let ?g = "\<lparr>stem = ''offer'', opened = Inl OSError, read_bytes = Inl OSError\<rparr>"
  let ?f' = "\<lparr>stem = ''copy'', opened = Inl OSError, read_bytes = Inr ''a''\<rparr>"
  have a: "msg_id sample_env ?m1 ?f = Inr ''<m1@example.com>''"
    using msg_id_identity [of ?m1 "''<m1@example.com>''" sample_env ?f] by simp
  have b: "msg_id sample_env ?m0 ?f = Inr ''<0cc175b9c0f1b6a831c399e269772661>''"
    using msg_id_identity [of ?m0 _ sample_env ?f "''a''"] by (simp add: sample_env_def sample_md5_def)
  have c: "msg_id sample_env ?m0 ?g = Inl OSError"
    using msg_id_identity [of ?m0 _ sample_env ?g _ OSError] by simp
  have d: "msg_id sample_env ?m0 ?f = msg_id sample_env ?m2 ?f'"
    using msg_id_identity [of ?m0 _ sample_env ?f _ _ ?m2 ?f'] by simp
  from a b c d show ?thesis by (intro conjI)
qed

subsection \<open>Image dimensions\<close>

text \<open>
  C4, as stated: with both attributes convertible, the dimension check discards only
  when both dimensions are below 50; and with an attribute absent, it does not discard.
  Both fail: the code discards when either dimension is below 50, so a 400 by 10 image
  is discarded, and so is an image that declares only a height of 10.
\<close>

theorem dimension_check_counterexample:
  "declared_dim [''width'' \<mapsto> ''400'', ''height'' \<mapsto> ''10''] ''width'' = Some 400 \<and>
   declared_dim [''width'' \<mapsto> ''400'', ''height'' \<mapsto> ''10''] ''height'' = Some 10 \<and>
   \<not> ((400::int) < MINIMUM_IMAGE_SIZE \<and> (10::int) < MINIMUM_IMAGE_SIZE) \<and>
   dimension_check (Some [''width'' \<mapsto> ''400'', ''height'' \<mapsto> ''10'']) \<and>
   [''height'' \<mapsto> ''10''] ''width'' = None \<and>
   dimension_check (Some [''height'' \<mapsto> ''10''])"
  by (simp add: dimension_check_def declared_dim_def tag_get_def py_int_def nat_literal_def
      strip_def strip_with_def is_space_def is_digit_def digit_val_def MINIMUM_IMAGE_SIZE_def)

text \<open>
  C4, amended. The minimum is 50. When both attributes convert to integers (after
  removing \<^verbatim>\<open>px\<close>; an attribute that is absent or empty counts as 999), the dimension
  check discards exactly when at least one of the two is below 50. When an
  attribute that is present does not convert, the check does not discard. The check is a
  total function: it raises nothing.
\<close>

theorem dimension_check_either:
  "MINIMUM_IMAGE_SIZE = 50 \<and>
   (declared_dim t ''width'' = Some w \<and> declared_dim t ''height'' = Some h
      \<longrightarrow> dimension_check (Some t) = (w < 50 \<or> h < 50)) \<and>
   (declared_dim t ''width'' = None \<or> declared_dim t ''height'' = None
      \<longrightarrow> \<not> dimension_check (Some t)) \<and>
   (remove_px (tag_get t k) = [] \<longrightarrow> declared_dim t k = Some 999) \<and>
   (remove_px (tag_get t k) \<noteq> [] \<longrightarrow> declared_dim t k = py_int (remove_px (tag_get t k))) \<and>
   \<not> dimension_check None"
  by (auto simp: dimension_check_def declared_dim_def MINIMUM_IMAGE_SIZE_def Let_def
      split: option.splits)

theorem dimension_check_either_witness:
  "dimension_check (Some [''width'' \<mapsto> ''10px'', ''height'' \<mapsto> ''10px'']) \<and>
   \<not> dimension_check (Some [''width'' \<mapsto> ''400'']) \<and>
   \<not> dimension_check (Some [''width'' \<mapsto> ''10'', ''height'' \<mapsto> ''auto'']) \<and>
   declared_dim [''width'' \<mapsto> ''400''] ''height'' = Some 999"
proof -
  have d: "declared_dim [''width'' \<mapsto> ''10px'', ''height'' \<mapsto> ''10px''] ''width'' = Some 10"
    "declared_dim [''width'' \<mapsto> ''10px'', ''height'' \<mapsto> ''10px''] ''height'' = Some 10"
    "declared_dim [''width'' \<mapsto> ''400''] ''width'' = Some 400"
    "remove_px (tag_get [''width'' \<mapsto> ''400''] ''height'') = []"
    "declared_dim [''width'' \<mapsto> ''10'', ''height'' \<mapsto> ''auto''] ''height'' = None"
    by (simp_all add: declared_dim_def tag_get_def py_int_def nat_literal_def
      strip_def strip_with_def is_space_def is_digit_def digit_val_def)
  have a: "dimension_check (Some [''width'' \<mapsto> ''10px'', ''height'' \<mapsto> ''10px''])"
    using dimension_check_either [of "[''width'' \<mapsto> ''10px'', ''height'' \<mapsto> ''10px'']" 10 10] d(1,2)
    by simp
  have e: "declared_dim [''width'' \<mapsto> ''400''] ''height'' = Some 999"
    using dimension_check_either [of "[''width'' \<mapsto> ''400'']" _ _ "''height''"] d(4) by blast
  have b: "\<not> dimension_check (Some [''width'' \<mapsto> ''400''])"
    using dimension_check_either [of "[''width'' \<mapsto> ''400'']" 400 999] d(3) e by simp
  have c: "\<not> dimension_check (Some [''width'' \<mapsto> ''10'', ''height'' \<mapsto> ''auto''])"
    using dimension_check_either [of "[''width'' \<mapsto> ''10'', ''height'' \<mapsto> ''auto'']"] d(5) by blast
  from a b c e show ?thesis by (intro conjI)
qed

subsection \<open>Image file names\<close>

text \<open>
  C9, as stated: when the part has a \<^verbatim>\<open>Content-ID\<close>, the file name is that id without
  its angle brackets, plus the extension. It fails for a \<^verbatim>\<open>Content-ID\<close> that is empty once
  the brackets are stripped: the code then names the file after the digest of the bytes.
\<close>

theorem img_filename_empty_cid_counterexample:
  "content_id (sample_part ''image/png'' (Some ''<>'') (Some ''a'')) = Some ''<>'' \<and>
   img_filename sample_env (sample_part ''image/png'' (Some ''<>'') (Some ''a'')) ''a''
     = ''img_0cc175b9c0f1b6a831c399e269772661.png'' \<and>
   img_filename sample_env (sample_part ''image/png'' (Some ''<>'') (Some ''a'')) ''a''
     \<noteq> strip_with (\<lambda>c. c = CHR ''<'' \<or> c = CHR ''>'') ''<>'' @ ''.png''"
  by (simp add: img_filename_def sample_part_def sample_env_def sample_md5_def
      sample_guess_extension_def strip_with_def)

text \<open>
  C9, amended. For an image part with a payload that is not empty, the file name is a
  function of the \<^verbatim>\<open>Content-ID\<close>, the bytes and the content type only. When the
  \<^verbatim>\<open>Content-ID\<close>, stripped of the angle brackets at its ends, is not empty, the name is
  that id plus the extension; when the header is missing or nothing is left of it, the
  name is \<^verbatim>\<open>img_\<close>, the MD5 digest of the bytes, and the extension. The extension is the
  one guessed from the content type, \<^verbatim>\<open>.bin\<close> when there is none. A write that succeeds
  stores the bytes under that name and appends the name; a part without payload, or
  with an empty one, is passed over and the loop goes on.
\<close>

theorem img_filename_deterministic:
  fixes part :: mime_part and E :: env
  defines "cid \<equiv> strip_with (\<lambda>c. c = CHR ''<'' \<or> c = CHR ''>'')
                   (case content_id part of None \<Rightarrow> [] | Some v \<Rightarrow> v)"
  defines "ext \<equiv> (case guess_extension E (content_type part) of
                    None \<Rightarrow> ''.bin'' | Some x \<Rightarrow> if x \<noteq> [] then x else ''.bin'')"
  shows
  "(cid \<noteq> [] \<longrightarrow> img_filename E part d = cid @ ext) \<and>
   (cid = [] \<longrightarrow> img_filename E part d = ''img_'' @ md5_hexdigest E d @ ext) \<and>
   (content_id part' = content_id part \<and> content_type part' = content_type part
      \<longrightarrow> img_filename E part' d = img_filename E part d) \<and>
   (content_maintype part = ''image'' \<and> payload part = Some d \<and> d \<noteq> [] \<and>
    image_write_error E (img_filename E part d) d = None
      \<longrightarrow> save_imgs_loop E (part # parts) dir saved =
          save_imgs_loop E parts (dir(img_filename E part d \<mapsto> d)) (saved @ [img_filename E part d])) \<and>
   (payload part = None \<or> payload part = Some []
      \<longrightarrow> save_imgs_loop E (part # parts) dir saved = save_imgs_loop E parts dir saved)"
  unfolding cid_def ext_def
  by (auto simp: img_filename_def Let_def)

theorem img_filename_deterministic_witness:
  "img_filename sample_env (sample_part ''image/png'' (Some ''<logo@example.com>'') (Some ''a'')) ''a''
     = ''logo@example.com.png'' \<and>
   img_filename sample_env (sample_part ''image/x-unknown'' None (Some ''a'')) ''a''
     = ''img_0cc175b9c0f1b6a831c399e269772661.bin'' \<and>
   save_imgs_loop sample_env [sample_part ''image/png'' (Some ''<logo@example.com>'') (Some ''a'')] Map.empty []
     = ([''logo@example.com.png'' \<mapsto> ''a''], Inr [''logo@example.com.png'']) \<and>
   save_imgs_loop sample_env [sample_part ''image/png'' None None] Map.empty [] = (Map.empty, Inr [])"
proof -
  let ?p = "sample_part ''image/png'' (Some ''<logo@example.com>'') (Some ''a'')"
  let ?q = "sample_part ''image/x-unknown'' None (Some ''a'')"
  let ?r = "sample_part ''image/png'' None None"
  have a: "img_filename sample_env ?p ''a'' = ''logo@example.com.png''"
    using img_filename_deterministic [of ?p sample_env "''a''"]
    by (simp add: sample_part_def sample_env_def sample_guess_extension_def strip_with_def)
  have b: "img_filename sample_env ?q ''a'' = ''img_0cc175b9c0f1b6a831c399e269772661.bin''"
    using img_filename_deterministic [of ?q sample_env "''a''"]
    by (simp add: sample_part_def sample_env_def sample_guess_extension_def strip_with_def sample_md5_def)
  have pre: "content_maintype ?p = ''image''" "payload ?p = Some ''a''"
    "image_write_error sample_env (img_filename sample_env ?p ''a'') ''a'' = None"
    by (simp_all add: sample_part_def sample_env_def content_maintype_def)
  have c: "save_imgs_loop sample_env [?p] Map.empty [] =
      ([''logo@example.com.png'' \<mapsto> ''a''], Inr [''logo@example.com.png''])"
  proof -
    have "save_imgs_loop sample_env [?p] Map.empty [] =
        save_imgs_loop sample_env [] [img_filename sample_env ?p ''a'' \<mapsto> ''a'']
          ([] @ [img_filename sample_env ?p ''a''])"
      using img_filename_deterministic [of ?p sample_env "''a''" _ "[]" Map.empty "[]"] pre
      by blast
    then show ?thesis by (simp add: a)
  qed
  have d: "save_imgs_loop sample_env [?r] Map.empty [] = (Map.empty, Inr [])"
  proof -
    have "payload ?r = None" by (simp add: sample_part_def)
    then have "save_imgs_loop sample_env [?r] Map.empty [] = save_imgs_loop sample_env [] Map.empty []"
      using img_filename_deterministic [of ?r sample_env _ _ "[]" Map.empty "[]"] by blast
    then show ?thesis by simp
  qed
  from a b c d show ?thesis by (intro conjI)
qed

subsection \<open>Field extraction\<close>




lemma eats_eps: "eats P (rx_lit [])"
  unfolding eats_def by auto



































subsection \<open>Body selection\<close>

lemma body_loop_first_text:
  "body_loop E parts (h, p) =
     (if h \<noteq> [] then h else first_text E ''text/html'' parts,
      if p \<noteq> [] then p else first_text E ''text/plain'' parts)"
  by (induction parts arbitrary: h p) (auto split: option.splits)

lemma first_text_none:
  "\<forall>part\<in>set parts. content_type part \<noteq> ctype \<Longrightarrow> first_text E ctype parts = []"
  by (induction parts) auto

lemma body_first_text:
  "body E msg =
     (if first_text E ''text/html'' (walk msg) \<noteq> []
      then html_get_text E (first_text E ''text/html'' (walk msg))
      else Inr (first_text E ''text/plain'' (walk msg)))"
  by (simp add: body_def body_loop_first_text)

text \<open>
  C5, as stated: the HTML candidate is the first \<^verbatim>\<open>text/html\<close> part and the plain
  candidate the first \<^verbatim>\<open>text/plain\<close> part. It fails when that part decodes to the empty
  string: the code passes over it. With an empty \<^verbatim>\<open>text/plain\<close> part before a second one
  the body is the second part's text, and with an empty \<^verbatim>\<open>text/html\<close> part the plain
  text is used although an HTML part exists.
\<close>

theorem body_empty_part_counterexample:
  "body_as_specified sample_env
     \<lparr>hdr_message_id = None, hdr_subject = None, hdr_date = None, hdr_from = None,
      walk = [sample_part ''text/plain'' None (Some []),
              sample_part ''text/plain'' None (Some ''Hello'')]\<rparr> = Inr [] \<and>
   body sample_env
     \<lparr>hdr_message_id = None, hdr_subject = None, hdr_date = None, hdr_from = None,
      walk = [sample_part ''text/plain'' None (Some []),
              sample_part ''text/plain'' None (Some ''Hello'')]\<rparr> = Inr ''Hello'' \<and>
   body_as_specified sample_env
     \<lparr>hdr_message_id = None, hdr_subject = None, hdr_date = None, hdr_from = None,
      walk = [sample_part ''text/html'' None (Some []),
              sample_part ''text/plain'' None (Some ''Hello'')]\<rparr> = Inr [] \<and>
   body sample_env
     \<lparr>hdr_message_id = None, hdr_subject = None, hdr_date = None, hdr_from = None,
      walk = [sample_part ''text/html'' None (Some []),
              sample_part ''text/plain'' None (Some ''Hello'')]\<rparr> = Inr ''Hello''"
  by (simp add: body_as_specified_def candidate_part_def body_def sample_part_def sample_env_def
      py_str_def strip_def strip_with_def)


lemma build_offer_description:
  assumes "build_offer E f P = (P', Inr (Some (key, dt, offer)))" and "opened f = Inr msg"
  shows "body E msg = Inr (product_description offer)"
  using assms
  by (auto simp: build_offer_def Let_def split: sum.splits if_splits prod.splits)

lemma build_offer_no_text:
  assumes "opened f = Inr msg" and "msg_id E msg f = Inr mid" and "mid \<notin> seen P"
    and "as_dt E (case hdr_date msg of None \<Rightarrow> [] | Some d \<Rightarrow> d) = Inr dt"
    and "snd (save_imgs E msg (image_dir P)) = Inr imgs"
    and "body E msg = Inr []"
  shows "\<exists>P' key offer. build_offer E f P = (P', Inr (Some (key, dt, offer))) \<and>
           product_description offer = []"
  using assms
  by (cases "save_imgs E msg (image_dir P)") (auto simp: build_offer_def Let_def)

text \<open>
  C5, amended. Parts whose disposition contains \<^verbatim>\<open>attachment\<close> are skipped. The HTML
  candidate is the first remaining \<^verbatim>\<open>text/html\<close> part that has a payload and decodes to
  a text that is not empty, the plain candidate the first such \<^verbatim>\<open>text/plain\<close> part. If
  there is an HTML candidate the body is its text as the HTML library extracts it, else
  it is the plain candidate, else the empty string. A part that cannot be decoded is
  passed over and the scan goes on. A message with no such part has the empty body, and
  if nothing else fails its offer has an empty \<open>product_description\<close>.
\<close>

theorem body_selection:
  "body E msg =
     (if first_text E ''text/html'' (walk msg) \<noteq> []
      then html_get_text E (first_text E ''text/html'' (walk msg))
      else Inr (first_text E ''text/plain'' (walk msg))) \<and>
   (str_in ''attachment'' (py_str (content_disposition part)) \<or> payload part = None
      \<longrightarrow> body_loop E (part # parts) hp = body_loop E parts hp) \<and>
   ((\<forall>part\<in>set (walk msg). content_type part \<noteq> ''text/html'' \<and> content_type part \<noteq> ''text/plain'')
      \<longrightarrow> body E msg = Inr []) \<and>
   (build_offer E f P = (P', Inr (Some (key, dt, offer))) \<and> opened f = Inr msg
      \<longrightarrow> body E msg = Inr (product_description offer)) \<and>
   (opened f = Inr msg \<and> msg_id E msg f = Inr mid \<and> mid \<notin> seen P \<and>
    as_dt E (case hdr_date msg of None \<Rightarrow> [] | Some d \<Rightarrow> d) = Inr dt \<and>
    snd (save_imgs E msg (image_dir P)) = Inr imgs \<and> body E msg = Inr []
      \<longrightarrow> (\<exists>Q k offer'. build_offer E f P = (Q, Inr (Some (k, dt, offer'))) \<and>
            product_description offer' = []))"
proof -
  have skip: "str_in ''attachment'' (py_str (content_disposition part)) \<or> payload part = None
      \<longrightarrow> body_loop E (part # parts) hp = body_loop E parts hp"
    by (cases hp) auto
  have none: "(\<forall>part\<in>set (walk msg). content_type part \<noteq> ''text/html'' \<and> content_type part \<noteq> ''text/plain'')
      \<longrightarrow> body E msg = Inr []"
    using first_text_none [of "walk msg" "''text/html''" E]
      first_text_none [of "walk msg" "''text/plain''" E]
    by (simp add: body_first_text)
  have descr: "build_offer E f P = (P', Inr (Some (key, dt, offer))) \<and> opened f = Inr msg
      \<longrightarrow> body E msg = Inr (product_description offer)"
    using build_offer_description by blast
  have empty: "opened f = Inr msg \<and> msg_id E msg f = Inr mid \<and> mid \<notin> seen P \<and>
    as_dt E (case hdr_date msg of None \<Rightarrow> [] | Some d \<Rightarrow> d) = Inr dt \<and>
    snd (save_imgs E msg (image_dir P)) = Inr imgs \<and> body E msg = Inr []
      \<longrightarrow> (\<exists>Q k offer'. build_offer E f P = (Q, Inr (Some (k, dt, offer'))) \<and>
            product_description offer' = [])"
    using build_offer_no_text by blast
  from body_first_text [of E msg] skip none descr empty show ?thesis by (intro conjI)
qed


theorem body_selection_witness:
  "body sample_env
     \<lparr>hdr_message_id = Some ''<m1@example.com>'', hdr_subject = Some ''RE: Offer'',
      hdr_date = None, hdr_from = Some ''sales@example.com'',
      walk = [sample_part ''image/png'' None (Some ''a'')]\<rparr> = Inr [] \<and>
   (\<exists>Q k offer'.
      build_offer sample_env
        (sample_file ''offer1'' (Some ''<m1@example.com>'') (Some ''RE: Offer'') None
           [sample_part ''image/png'' None (Some ''a'')])
        (init_pipeline None Map.empty) = (Q, Inr (Some (k, 0, offer'))) \<and>
      product_description offer' = []) \<and>
   body_loop sample_env
     [sample_part ''text/html'' None None, sample_part ''text/html'' None (Some ''<p>Hello</p>'')]
     ([], []) = (''<p>Hello</p>'', [])"
proof -
  let ?parts = "[sample_part ''image/png'' None (Some ''a'')]"
  let ?msg = "\<lparr>hdr_message_id = Some ''<m1@example.com>'', hdr_subject = Some ''RE: Offer'',
      hdr_date = None, hdr_from = Some ''sales@example.com'', walk = ?parts\<rparr>"
  let ?f = "sample_file ''offer1'' (Some ''<m1@example.com>'') (Some ''RE: Offer'') None ?parts"
  let ?P = "init_pipeline None Map.empty"
  have no_text: "\<forall>part\<in>set (walk ?msg).
      content_type part \<noteq> ''text/html'' \<and> content_type part \<noteq> ''text/plain''"
    by (simp add: sample_part_def)
  have a: "body sample_env ?msg = Inr []"
    by (rule body_selection [where E = sample_env and msg = ?msg,
          THEN conjunct2, THEN conjunct2, THEN conjunct1, THEN mp]) (rule no_text)
  have pre: "opened ?f = Inr ?msg" "msg_id sample_env ?msg ?f = Inr ''<m1@example.com>''"
    "''<m1@example.com>'' \<notin> seen ?P"
    "as_dt sample_env (case hdr_date ?msg of None \<Rightarrow> [] | Some d \<Rightarrow> d) = Inr 0"
    "snd (save_imgs sample_env ?msg (image_dir ?P)) = Inr [''img_0cc175b9c0f1b6a831c399e269772661.png'']"
    by (simp_all add: sample_file_def msg_id_def init_pipeline_def load_hashes_def as_dt_def
        sample_env_def sample_parsedate_def save_imgs_def sample_part_def content_maintype_def
        img_filename_def sample_guess_extension_def sample_md5_def strip_with_def Let_def)
  have b: "\<exists>Q k offer'. build_offer sample_env ?f ?P = (Q, Inr (Some (k, 0, offer'))) \<and>
      product_description offer' = []"
    by (rule body_selection [where E = sample_env and msg = ?msg and f = ?f and P = ?P
          and mid = "''<m1@example.com>''" and dt = 0
          and imgs = "[''img_0cc175b9c0f1b6a831c399e269772661.png'']",
          THEN conjunct2, THEN conjunct2, THEN conjunct2, THEN conjunct2, THEN mp])
       (intro conjI pre a)
  have "payload (sample_part ''text/html'' None None) = None"
    by (simp add: sample_part_def)
  then have "body_loop sample_env
     [sample_part ''text/html'' None None, sample_part ''text/html'' None (Some ''<p>Hello</p>'')]
     ([], []) =
     body_loop sample_env [sample_part ''text/html'' None (Some ''<p>Hello</p>'')] ([], [])"
    using body_selection [where E = sample_env and part = "sample_part ''text/html'' None None"
        and parts = "[sample_part ''text/html'' None (Some ''<p>Hello</p>'')]" and hp = "([], [])"]
    by blast
  then have c: "body_loop sample_env
     [sample_part ''text/html'' None None, sample_part ''text/html'' None (Some ''<p>Hello</p>'')]
     ([], []) = (''<p>Hello</p>'', [])"
    by (simp add: sample_part_def sample_env_def py_str_def)
  from a b c show ?thesis by (intro conjI)
qed

subsection \<open>One round of the loop\<close>

lemma build_offer_pipe:
  assumes "build_offer E f P = (P', r)"
  shows "seen P' = seen P" and "hash_file P' = hash_file P"
  using assms
  by (auto simp: build_offer_def Let_def split: sum.splits if_splits prod.splits)

lemma build_offer_Some:
  assumes "build_offer E f P = (P', Inr (Some (key, dt, offer)))"
  shows "key = offer_key offer" and "as_dt E (date_received offer) = Inr dt"
    and "offer_dt E offer = dt" and "message_id offer \<notin> seen P"
  using assms
  by (auto simp: build_offer_def Let_def offer_key_def offer_dt_def
      split: sum.splits if_splits prod.splits)

lemma build_offer_fails_iff:
  "snd (build_offer E f P) = Inl e \<longleftrightarrow>
     opened f = Inl e \<or>
     (\<exists>msg. opened f = Inr msg \<and>
        (msg_id E msg f = Inl e \<or>
         (\<exists>mid. msg_id E msg f = Inr mid \<and> mid \<notin> seen P \<and>
            (as_dt E (case hdr_date msg of None \<Rightarrow> [] | Some d \<Rightarrow> d) = Inl e \<or>
             (\<exists>dt. as_dt E (case hdr_date msg of None \<Rightarrow> [] | Some d \<Rightarrow> d) = Inr dt \<and>
                (body E msg = Inl e \<or>
                 (\<exists>b. body E msg = Inr b \<and> snd (save_imgs E msg (image_dir P)) = Inl e)))))))"
  by (cases "save_imgs E msg (image_dir P)")
     (auto simp: build_offer_def Let_def split: sum.splits if_splits prod.splits)

lemma process_file_failed_early:
  assumes "snd (build_offer E f (pipe st)) = Inl e \<or>
     (\<exists>key dt offer. snd (build_offer E f (pipe st)) = Inr (Some (key, dt, offer)) \<and>
        keep_latest E key dt offer (latest st) = Inl e)"
  shows "process_file E f st =
           (st\<lparr>pipe := (pipe st)\<lparr>image_dir := image_dir (fst (build_offer E f (pipe st)))\<rparr>\<rparr>, Failed e)"
proof -
  obtain P r where b: "build_offer E f (pipe st) = (P, r)" by (cases "build_offer E f (pipe st)")
  from build_offer_pipe [OF b] have "P = (pipe st)\<lparr>image_dir := image_dir P\<rparr>"
    by (cases P, cases "pipe st") simp
  with assms b show ?thesis
    by (auto simp: process_file_def split: sum.splits option.splits)
qed


text \<open>
  C10. An exception raised while a message is processed, before its entry is put into
  the candidate map (opening the file, computing the identity, parsing the date,
  decoding the body, saving the images, or reading the retained offer's date in the
  dedup step) is caught: the round ends as \<open>Failed\<close>, and the candidate map, the seen
  set, the ledger file and the counter are as before; only image files already written
  stay. The loop goes on with the next file from that state, and the identity of the
  message is not in the seen set unless it was there before.
\<close>

theorem failure_before_insertion:
  "(snd (build_offer E f (pipe st)) = Inl e \<longleftrightarrow>
     opened f = Inl e \<or>
     (\<exists>msg. opened f = Inr msg \<and>
        (msg_id E msg f = Inl e \<or>
         (\<exists>mid. msg_id E msg f = Inr mid \<and> mid \<notin> seen (pipe st) \<and>
            (as_dt E (case hdr_date msg of None \<Rightarrow> [] | Some d \<Rightarrow> d) = Inl e \<or>
             (\<exists>dt. as_dt E (case hdr_date msg of None \<Rightarrow> [] | Some d \<Rightarrow> d) = Inr dt \<and>
                (body E msg = Inl e \<or>
                 (\<exists>b. body E msg = Inr b \<and> snd (save_imgs E msg (image_dir (pipe st))) = Inl e)))))))) \<and>
   (snd (build_offer E f (pipe st)) = Inl e \<or>
     (\<exists>key dt offer. snd (build_offer E f (pipe st)) = Inr (Some (key, dt, offer)) \<and>
        keep_latest E key dt offer (latest st) = Inl e)
    \<longrightarrow> snd (process_file E f st) = Failed e \<and>
        latest (fst (process_file E f st)) = latest st \<and>
        seen (pipe (fst (process_file E f st))) = seen (pipe st) \<and>
        hash_file (pipe (fst (process_file E f st))) = hash_file (pipe st) \<and>
        new_offers_count (fst (process_file E f st)) = new_offers_count st \<and>
        process_loop E (f # files) st =
          process_loop E files
            (st\<lparr>pipe := (pipe st)\<lparr>image_dir := image_dir (fst (build_offer E f (pipe st)))\<rparr>\<rparr>))"
proof -
  have "snd (build_offer E f (pipe st)) = Inl e \<or>
     (\<exists>key dt offer. snd (build_offer E f (pipe st)) = Inr (Some (key, dt, offer)) \<and>
        keep_latest E key dt offer (latest st) = Inl e)
    \<longrightarrow> snd (process_file E f st) = Failed e \<and>
        latest (fst (process_file E f st)) = latest st \<and>
        seen (pipe (fst (process_file E f st))) = seen (pipe st) \<and>
        hash_file (pipe (fst (process_file E f st))) = hash_file (pipe st) \<and>
        new_offers_count (fst (process_file E f st)) = new_offers_count st \<and>
        process_loop E (f # files) st =
          process_loop E files
            (st\<lparr>pipe := (pipe st)\<lparr>image_dir := image_dir (fst (build_offer E f (pipe st)))\<rparr>\<rparr>)"
  proof
    assume "snd (build_offer E f (pipe st)) = Inl e \<or>
     (\<exists>key dt offer. snd (build_offer E f (pipe st)) = Inr (Some (key, dt, offer)) \<and>
        keep_latest E key dt offer (latest st) = Inl e)"
    from process_file_failed_early [OF this] show "snd (process_file E f st) = Failed e \<and>
        latest (fst (process_file E f st)) = latest st \<and>
        seen (pipe (fst (process_file E f st))) = seen (pipe st) \<and>
        hash_file (pipe (fst (process_file E f st))) = hash_file (pipe st) \<and>
        new_offers_count (fst (process_file E f st)) = new_offers_count st \<and>
        process_loop E (f # files) st =
          process_loop E files
            (st\<lparr>pipe := (pipe st)\<lparr>image_dir := image_dir (fst (build_offer E f (pipe st)))\<rparr>\<rparr>)"
      by simp
  qed
  with build_offer_fails_iff [of E f "pipe st" e] show ?thesis by (intro conjI)
qed

theorem failure_before_insertion_witness:
  "process_file sample_env
     (sample_file ''offer9'' (Some ''<m9@example.com>'') (Some ''Offer'')
        (Some ''Fri, 31 Dec 9999 23:59:59 -0100'') [])
     (start_state (init_pipeline None Map.empty))
   = (start_state (init_pipeline None Map.empty), Failed OtherError) \<and>
   ''<m9@example.com>'' \<notin> seen (pipe (fst (process_file sample_env
     (sample_file ''offer9'' (Some ''<m9@example.com>'') (Some ''Offer'')
        (Some ''Fri, 31 Dec 9999 23:59:59 -0100'') [])
     (start_state (init_pipeline None Map.empty)))))"
proof -
  let ?f = "sample_file ''offer9'' (Some ''<m9@example.com>'') (Some ''Offer'')
        (Some ''Fri, 31 Dec 9999 23:59:59 -0100'') []"
  let ?st = "start_state (init_pipeline None Map.empty)"
  have b: "build_offer sample_env ?f (pipe ?st) = (pipe ?st, Inl OtherError)"
    by (simp add: build_offer_def sample_file_def msg_id_def start_state_def init_pipeline_def
        load_hashes_def as_dt_def sample_env_def sample_parsedate_def)
  then have "snd (build_offer sample_env ?f (pipe ?st)) = Inl OtherError \<or>
     (\<exists>key dt offer. snd (build_offer sample_env ?f (pipe ?st)) = Inr (Some (key, dt, offer)) \<and>
        keep_latest sample_env key dt offer (latest ?st) = Inl OtherError)"
    by simp
  with failure_before_insertion [of sample_env ?f ?st OtherError]
  have r: "snd (process_file sample_env ?f ?st) = Failed OtherError"
    "latest (fst (process_file sample_env ?f ?st)) = latest ?st"
    "seen (pipe (fst (process_file sample_env ?f ?st))) = seen (pipe ?st)"
    "hash_file (pipe (fst (process_file sample_env ?f ?st))) = hash_file (pipe ?st)"
    "new_offers_count (fst (process_file sample_env ?f ?st)) = new_offers_count ?st"
    by blast+
  have img: "image_dir (pipe (fst (process_file sample_env ?f ?st))) = image_dir (pipe ?st)"
    using b by (simp add: process_file_def)
  have "fst (process_file sample_env ?f ?st) = ?st"
    using r(2,3,4,5) img
    by (cases "fst (process_file sample_env ?f ?st)", cases "pipe (fst (process_file sample_env ?f ?st))")
       (simp add: start_state_def init_pipeline_def)
  with r(1) have a: "process_file sample_env ?f ?st = (?st, Failed OtherError)"
    by (metis prod.collapse)
  from r(3) have c: "''<m9@example.com>'' \<notin> seen (pipe (fst (process_file sample_env ?f ?st)))"
    by (simp add: start_state_def init_pipeline_def load_hashes_def)
  from a c show ?thesis by (intro conjI)
qed

subsection \<open>The candidate map\<close>

lemma process_file_latest:
  "latest (fst (process_file E f st)) =
     (case snd (build_offer E f (pipe st)) of
        Inr (Some (key, dt, offer)) \<Rightarrow> merge_offer E (latest st) offer
      | _ \<Rightarrow> latest st)"
proof (cases "build_offer E f (pipe st)")
  case (Pair P r)
  show ?thesis
  proof (cases r)
    case (Inl e)
    with Pair show ?thesis by (simp add: process_file_def)
  next
    case (Inr c)
    show ?thesis
    proof (cases c)
      case None
      with Pair Inr show ?thesis by (simp add: process_file_def)
    next
      case (Some kdo)
      obtain key dt offer where kdo: "kdo = (key, dt, offer)" by (cases kdo)
      from Pair Inr Some kdo have b: "build_offer E f (pipe st) = (P, Inr (Some (key, dt, offer)))"
        by simp
      from build_offer_Some [OF b] b show ?thesis
        by (auto simp: process_file_def merge_offer_def split: sum.splits prod.splits option.splits)
    qed
  qed
qed

lemma process_loop_latest:
  "latest (process_loop E files st) = foldl (merge_offer E) (latest st) (candidates E files st)"
proof (induction files arbitrary: st)
  case Nil
  then show ?case by simp
next
  case (Cons f files)
  show ?case
    by (simp add: Cons.IH process_file_latest [of E f st]
        split: sum.splits option.splits prod.splits)
qed

lemma candidates_good:
  "offer \<in> set (candidates E files st) \<Longrightarrow> \<exists>dt. as_dt E (date_received offer) = Inr dt"
proof (induction files arbitrary: st)
  case Nil
  then show ?case by simp
next
  case (Cons f files)
  show ?case
  proof (cases "offer \<in> set (candidates E files (fst (process_file E f st)))")
    case True
    then show ?thesis by (rule Cons.IH)
  next
    case False
    with Cons.prems obtain key dt where "snd (build_offer E f (pipe st)) = Inr (Some (key, dt, offer))"
      by (cases "snd (build_offer E f (pipe st))") (auto split: option.splits)
    then have "build_offer E f (pipe st) = (fst (build_offer E f (pipe st)), Inr (Some (key, dt, offer)))"
      by (metis prod.collapse)
    from build_offer_Some(2) [OF this] show ?thesis by blast
  qed
qed

lemma set_alist_update: "set (AList.update k v al) \<subseteq> insert (k, v) (set al)"
  by (induction al) auto


lemma merge_offer_cases:
  assumes "\<forall>(k, prev)\<in>set L. \<exists>t. as_dt E (date_received prev) = Inr t"
  shows "merge_offer E L offer =
     (case map_of L (offer_key offer) of
        None \<Rightarrow> AList.update (offer_key offer) offer L
      | Some prev \<Rightarrow>
          if offer_dt E offer > offer_dt E prev then AList.update (offer_key offer) offer L else L)"
proof (cases "map_of L (offer_key offer)")
  case None
  then show ?thesis by (simp add: merge_offer_def keep_latest_def)
next
  case (Some prev)
  then have "(offer_key offer, prev) \<in> set L" by (rule map_of_SomeD)
  with assms obtain t where "as_dt E (date_received prev) = Inr t" by blast
  with Some show ?thesis by (simp add: merge_offer_def keep_latest_def offer_dt_def)
qed

lemma wf_latest_merge:
  assumes "wf_latest E L" and "\<exists>t. as_dt E (date_received offer) = Inr t"
  shows "wf_latest E (merge_offer E L offer)"
proof -
  from assms(1) have good: "\<forall>(k, prev)\<in>set L. \<exists>t. as_dt E (date_received prev) = Inr t"
    unfolding wf_latest_def by blast
  have upd: "wf_latest E (AList.update (offer_key offer) offer L)"
    unfolding wf_latest_def
  proof (intro conjI ballI)
    from assms(1) show "distinct (map fst (AList.update (offer_key offer) offer L))"
      by (simp add: wf_latest_def distinct_update)
  next
    fix x assume "x \<in> set (AList.update (offer_key offer) offer L)"
    with set_alist_update [of "offer_key offer" offer L]
    have "x = (offer_key offer, offer) \<or> x \<in> set L" by blast
    with assms show "case x of (k, prev) \<Rightarrow>
        k = offer_key prev \<and> (\<exists>t. as_dt E (date_received prev) = Inr t)"
      unfolding wf_latest_def by auto
  qed
  show ?thesis
    unfolding merge_offer_cases [OF good] using upd assms(1)
    by (auto split: option.splits)
qed

lemma wf_latest_fold:
  assumes "wf_latest E L" and "\<forall>offer\<in>set cs. \<exists>t. as_dt E (date_received offer) = Inr t"
  shows "wf_latest E (foldl (merge_offer E) L cs)"
  using assms by (induction cs arbitrary: L) (simp_all add: wf_latest_merge)

lemma wf_latest_good:
  "wf_latest E L \<Longrightarrow> \<forall>(k, prev)\<in>set L. \<exists>t. as_dt E (date_received prev) = Inr t"
  unfolding wf_latest_def by blast

lemma merge_offer_keys:
  assumes "wf_latest E L"
  shows "map fst (merge_offer E L offer) =
     (if offer_key offer \<in> set (map fst L) then map fst L else map fst L @ [offer_key offer])"
proof (cases "map_of L (offer_key offer)")
  case None
  then have "offer_key offer \<notin> set (map fst L)" by (simp add: map_of_eq_None_iff)
  with None show ?thesis
    by (simp add: merge_offer_cases [OF wf_latest_good [OF assms]] update_keys)
next
  case (Some prev)
  then have "offer_key offer \<in> set (map fst L)"
    by (metis map_of_eq_None_iff option.distinct(1) set_map)
  with Some show ?thesis
    by (simp add: merge_offer_cases [OF wf_latest_good [OF assms]] update_keys)
qed

lemma filter_first_seen_Cons_in:
  "k \<in> A \<Longrightarrow> filter (\<lambda>x. x \<notin> A) (first_seen (k # ks)) = filter (\<lambda>x. x \<notin> A) (first_seen ks)"
  by (auto intro: filter_cong)

lemma filter_first_seen_Cons_notin:
  "k \<notin> A \<Longrightarrow> filter (\<lambda>x. x \<notin> A) (first_seen (k # ks)) =
      k # filter (\<lambda>x. x \<notin> insert k A) (first_seen ks)"
  by (auto intro: filter_cong)

lemma fold_merge_keys:
  assumes "wf_latest E L" and "\<forall>offer\<in>set cs. \<exists>t. as_dt E (date_received offer) = Inr t"
  shows "map fst (foldl (merge_offer E) L cs) =
     map fst L @ filter (\<lambda>k. k \<notin> set (map fst L)) (first_seen (map offer_key cs))"
  using assms
proof (induction cs arbitrary: L)
  case Nil
  then show ?case by simp
next
  case (Cons c cs)
  from Cons.prems have wf': "wf_latest E (merge_offer E L c)" by (simp add: wf_latest_merge)
  from Cons.prems have good: "\<forall>offer\<in>set cs. \<exists>t. as_dt E (date_received offer) = Inr t" by simp
  note IH = Cons.IH [OF wf' good]
  show ?case
  proof (cases "offer_key c \<in> set (map fst L)")
    case True
    with merge_offer_keys [OF Cons.prems(1), of c]
    have "map fst (merge_offer E L c) = map fst L" by simp
    with IH filter_first_seen_Cons_in [OF True, of "map offer_key cs"] show ?thesis by simp
  next
    case False
    with merge_offer_keys [OF Cons.prems(1), of c]
    have "map fst (merge_offer E L c) = map fst L @ [offer_key c]" by simp
    with IH filter_first_seen_Cons_notin [OF False, of "map offer_key cs"] show ?thesis by simp
  qed
qed

lemma set_first_seen: "set (first_seen ks) = set ks"
  by (induction ks) auto

lemma distinct_first_seen: "distinct (first_seen ks)"
  by (induction ks) (auto simp: set_first_seen)







lemma wf_latest_Nil: "wf_latest E []"
  by (simp add: wf_latest_def)

lemma run_latest:
  "latest (process_loop E files (start_state P)) =
     foldl (merge_offer E) [] (candidates E files (start_state P))"
  using process_loop_latest [of E files "start_state P"] by (simp add: start_state_def)

lemma run_good:
  "\<forall>offer\<in>set (candidates E files st). \<exists>t. as_dt E (date_received offer) = Inr t"
  using candidates_good by blast

lemma run_wf: "wf_latest E (latest (process_loop E files (start_state P)))"
  unfolding run_latest by (rule wf_latest_fold [OF wf_latest_Nil run_good])

lemma run_keys:
  "map fst (latest (process_loop E files (start_state P))) =
     first_seen (map offer_key (candidates E files (start_state P)))"
  unfolding run_latest using fold_merge_keys [OF wf_latest_Nil run_good, of E files "start_state P"]
  by simp

lemma wf_latest_keys: "wf_latest E L \<Longrightarrow> map offer_key (map snd L) = map fst L"
  unfolding wf_latest_def by (induction L) auto

lemma merge_offer_set: "set (merge_offer E L c) \<subseteq> insert (offer_key c, c) (set L)"
  using set_alist_update [of "offer_key c" c L]
  by (auto simp: merge_offer_def keep_latest_def split: sum.splits option.splits if_splits)

lemma fold_merge_set:
  "set (foldl (merge_offer E) L cs) \<subseteq> set L \<union> (\<lambda>c. (offer_key c, c)) ` set cs"
proof (induction cs arbitrary: L)
  case Nil
  then show ?case by simp
next
  case (Cons c cs)
  from Cons.IH [of "merge_offer E L c"] merge_offer_set [of E L c] show ?case by auto
qed

lemma run_offers_subset:
  "set (map snd (latest (process_loop E files (start_state P)))) \<subseteq>
     set (candidates E files (start_state P))"
  unfolding run_latest using fold_merge_set [of E "[]" "candidates E files (start_state P)"]
  by auto

lemma process_result:
  "snd (process E P files) =
     (if latest (process_loop E files (start_state P)) = [] then NoNewOffers
      else WroteOffers (map snd (latest (process_loop E files (start_state P)))))"
  by (simp add: process_def Let_def)

lemma first_seen_Nil_iff: "first_seen ks = [] \<longleftrightarrow> ks = []"
  by (cases ks) simp_all

lemma run_empty_iff:
  "latest (process_loop E files (start_state P)) = [] \<longleftrightarrow> candidates E files (start_state P) = []"
  using run_keys [of E files P] first_seen_Nil_iff [of "map offer_key (candidates E files (start_state P))"]
  by (metis map_is_Nil_conv)

lemma keep_latest_position:
  assumes "map_of L key = Some prev" and "keep_latest E key dt offer L = Inr L'"
  shows "map fst L' = map fst L"
proof -
  from assms(1) have "key \<in> set (map fst L)"
    by (metis map_of_eq_None_iff option.distinct(1) set_map)
  then have "map fst (AList.update key offer L) = map fst L" by (simp add: update_keys)
  with assms show ?thesis
    by (auto simp: keep_latest_def split: sum.splits if_splits)
qed

text \<open>
  C8. When candidates were built, the list written to the output file has exactly one
  offer for each key among the candidates, every one of them a candidate, and the keys
  of the list are the keys of the candidates in the order of their first appearance
  during the scan. A candidate that replaces the retained offer of its key leaves the
  order of the keys as it is. With no candidate nothing is written.
\<close>

theorem output_order:
  "(candidates E files (start_state P) = [] \<longrightarrow> snd (process E P files) = NoNewOffers) \<and>
   (candidates E files (start_state P) \<noteq> [] \<longrightarrow>
      (\<exists>offers. snd (process E P files) = WroteOffers offers \<and>
         map offer_key offers = first_seen (map offer_key (candidates E files (start_state P))) \<and>
         distinct (map offer_key offers) \<and>
         set (map offer_key offers) = set (map offer_key (candidates E files (start_state P))) \<and>
         set offers \<subseteq> set (candidates E files (start_state P)))) \<and>
   (map_of L key = Some prev \<and> keep_latest E key dt offer L = Inr L' \<longrightarrow> map fst L' = map fst L)"
proof -
  let ?final = "latest (process_loop E files (start_state P))"
  let ?cands = "candidates E files (start_state P)"
  have keys: "map offer_key (map snd ?final) = first_seen (map offer_key ?cands)"
    using wf_latest_keys [OF run_wf, of E files P] run_keys [of E files P] by simp
  have a: "?cands = [] \<longrightarrow> snd (process E P files) = NoNewOffers"
    using run_empty_iff [of E files P] by (simp add: process_result)
  have b: "?cands \<noteq> [] \<longrightarrow>
      (\<exists>offers. snd (process E P files) = WroteOffers offers \<and>
         map offer_key offers = first_seen (map offer_key ?cands) \<and>
         distinct (map offer_key offers) \<and>
         set (map offer_key offers) = set (map offer_key ?cands) \<and>
         set offers \<subseteq> set ?cands)"
  proof
    assume "?cands \<noteq> []"
    with run_empty_iff [of E files P] have "snd (process E P files) = WroteOffers (map snd ?final)"
      by (simp add: process_result)
    moreover have "distinct (map offer_key (map snd ?final))"
      unfolding keys by (rule distinct_first_seen)
    moreover have "set (map offer_key (map snd ?final)) = set (map offer_key ?cands)"
      unfolding keys by (rule set_first_seen)
    ultimately show "\<exists>offers. snd (process E P files) = WroteOffers offers \<and>
         map offer_key offers = first_seen (map offer_key ?cands) \<and>
         distinct (map offer_key offers) \<and>
         set (map offer_key offers) = set (map offer_key ?cands) \<and>
         set offers \<subseteq> set ?cands"
      using keys run_offers_subset [of E files P] by blast
  qed
  have c: "map_of L key = Some prev \<and> keep_latest E key dt offer L = Inr L' \<longrightarrow> map fst L' = map fst L"
    using keep_latest_position by blast
  from a b c show ?thesis by (intro conjI)
qed

subsection \<open>Runs in the sample world\<close>

lemma sample_build:
  assumes "mid \<noteq> []" and "subj \<noteq> []" and "sample_parsedate d = Inr t"
  shows "build_offer sample_env (sample_file name (Some mid) (Some subj) (Some d) []) P =
     (if mid \<in> seen P then (P, Inr None)
      else (P, Inr (Some (clean_subj subj, t, sample_offer mid subj d))))"
  using assms
  by (simp add: build_offer_def sample_file_def msg_id_def as_dt_def sample_env_def body_def
      save_imgs_def sample_offer_def Let_def)

lemma sample_parsed:
  assumes "mid \<noteq> []" and "subj \<noteq> []" and "sample_parsedate d = Inr t"
    and "mid \<notin> seen (pipe st)"
    and "keep_latest sample_env (clean_subj subj) t (sample_offer mid subj d) (latest st) = Inr L'"
  shows "process_file sample_env (sample_file name (Some mid) (Some subj) (Some d) []) st =
     (st\<lparr>pipe := (pipe st)\<lparr>seen := insert mid (seen (pipe st)),
                              hash_file := Some (insert mid (seen (pipe st)))\<rparr>,
         latest := L', new_offers_count := Suc (new_offers_count st)\<rparr>, Parsed)"
proof -
  have "ledger_write_error sample_env ids = None" for ids by (simp add: sample_env_def)
  moreover have "message_id (sample_offer mid subj d) = mid" by (simp add: sample_offer_def)
  ultimately show ?thesis
    using assms(4,5)
    by (simp add: process_file_def sample_build [OF assms(1,2,3)] save_hash_def Let_def)
qed

lemma sample_keys:
  "clean_subj ''Offer: SPC Flooring'' = ''offer: spc flooring''"
  "clean_subj ''RE: offer: SPC Flooring'' = ''offer: spc flooring''"
  "clean_subj ''Tile closeout'' = ''tile closeout''"
  by code_simp+

lemma sample_dates:
  "sample_parsedate ''Mon, 01 Jan 2024 10:00:00 +0000'' = Inr 63839700000000000"
  "sample_parsedate ''Tue, 02 Jan 2024 10:00:00 +0000'' = Inr 63839786400000000"
  "sample_parsedate ''Fri, 31 Dec 9999 23:59:59 -0100'' = Inl OtherError"
  by (simp_all add: sample_parsedate_def)

lemma sample_offer_key: "offer_key (sample_offer mid subj d) = clean_subj subj"
  by (simp add: offer_key_def sample_offer_def)

lemma sample_offer_dt:
  "sample_parsedate d = Inr t \<Longrightarrow> as_dt sample_env (date_received (sample_offer mid subj d)) = Inr t"
  by (simp add: as_dt_def sample_offer_def sample_env_def)

lemma sample_step1:
  "process_file sample_env sample_first sample_start =
     (\<lparr>pipe = \<lparr>seen = {''<m1@example.com>''}, hash_file = Some {''<m1@example.com>''},
               image_dir = Map.empty\<rparr>,
       latest = [(''offer: spc flooring'',
                  sample_offer ''<m1@example.com>'' ''Offer: SPC Flooring'' ''Mon, 01 Jan 2024 10:00:00 +0000'')],
       new_offers_count = 1\<rparr>, Parsed)"
  unfolding sample_first_def
  by (subst sample_parsed [OF _ _ sample_dates(1)])
     (simp_all add: sample_start_def start_state_def init_pipeline_def load_hashes_def
        keep_latest_def sample_keys)

lemma sample_step2:
  "process_file sample_env sample_other
     (sample_state {''<m1@example.com>''} [(''offer: spc flooring'', sample_offer1)] n) =
     (sample_state {''<m2@example.com>'', ''<m1@example.com>''}
        [(''offer: spc flooring'', sample_offer1), (''tile closeout'', sample_offer2)] (Suc n), Parsed)"
  unfolding sample_other_def
  by (subst sample_parsed [OF _ _ sample_dates(1)])
     (simp_all add: sample_state_def keep_latest_def sample_keys)

lemma sample_step3:
  "process_file sample_env sample_reply
     (sample_state {''<m2@example.com>'', ''<m1@example.com>''}
        [(''offer: spc flooring'', sample_offer1), (''tile closeout'', sample_offer2)] n) =
     (sample_state {''<m3@example.com>'', ''<m2@example.com>'', ''<m1@example.com>''}
        [(''offer: spc flooring'', sample_offer3), (''tile closeout'', sample_offer2)] (Suc n), Parsed)"
  unfolding sample_reply_def
  by (subst sample_parsed [OF _ _ sample_dates(2)])
     (simp_all add: sample_state_def keep_latest_def sample_keys sample_offer_dt [OF sample_dates(1)])

lemma sample_step1':
  "process_file sample_env sample_first sample_start =
     (sample_state {''<m1@example.com>''} [(''offer: spc flooring'', sample_offer1)] (Suc 0), Parsed)"
  by (simp add: sample_step1 sample_state_def)

lemma sample_builds:
  "snd (build_offer sample_env sample_first (pipe sample_start)) =
     Inr (Some (''offer: spc flooring'', 63839700000000000, sample_offer1))"
  "snd (build_offer sample_env sample_other
     (pipe (sample_state {''<m1@example.com>''} [(''offer: spc flooring'', sample_offer1)] n))) =
     Inr (Some (''tile closeout'', 63839700000000000, sample_offer2))"
  "snd (build_offer sample_env sample_reply
     (pipe (sample_state {''<m2@example.com>'', ''<m1@example.com>''}
        [(''offer: spc flooring'', sample_offer1), (''tile closeout'', sample_offer2)] n))) =
     Inr (Some (''offer: spc flooring'', 63839786400000000, sample_offer3))"
  unfolding sample_first_def sample_other_def sample_reply_def
  by (simp_all add: sample_build [OF _ _ sample_dates(1)] sample_build [OF _ _ sample_dates(2)]
      sample_state_def sample_start_def start_state_def init_pipeline_def load_hashes_def sample_keys)

lemma sample_candidates:
  "candidates sample_env [sample_first, sample_other, sample_reply] sample_start =
     [sample_offer1, sample_offer2, sample_offer3]"
  by (simp add: sample_builds sample_step1' sample_step2 sample_step3)

lemma sample_run:
  "process_loop sample_env [sample_first, sample_other, sample_reply] sample_start =
     sample_state {''<m3@example.com>'', ''<m2@example.com>'', ''<m1@example.com>''}
        [(''offer: spc flooring'', sample_offer3), (''tile closeout'', sample_offer2)] (Suc (Suc (Suc 0)))"
  by (simp add: sample_step1' sample_step2 sample_step3)

theorem output_order_witness:
  "\<exists>offers.
     snd (process sample_env (init_pipeline None Map.empty) [sample_first, sample_other, sample_reply])
       = WroteOffers offers \<and>
     map offer_key offers = [''offer: spc flooring'', ''tile closeout''] \<and>
     set offers \<subseteq> {sample_offer1, sample_offer2, sample_offer3}"
proof -
  have c: "candidates sample_env [sample_first, sample_other, sample_reply]
            (start_state (init_pipeline None Map.empty)) = [sample_offer1, sample_offer2, sample_offer3]"
    using sample_candidates by (simp add: sample_start_def)
  then have ne: "candidates sample_env [sample_first, sample_other, sample_reply]
            (start_state (init_pipeline None Map.empty)) \<noteq> []" by simp
  have k: "first_seen (map offer_key [sample_offer1, sample_offer2, sample_offer3]) =
      [''offer: spc flooring'', ''tile closeout'']"
    by (simp add: sample_offer_key sample_keys)
  from output_order [of sample_env "[sample_first, sample_other, sample_reply]"
      "init_pipeline None Map.empty", THEN conjunct2, THEN conjunct1, THEN mp, OF ne]
  show ?thesis unfolding c k by auto
qed

subsection \<open>Latest offer wins\<close>











subsection \<open>Running twice\<close>

lemma save_imgs_loop_result:
  "snd (save_imgs_loop E parts dir saved) = snd (save_imgs_loop E parts dir' saved)"
proof (induction parts arbitrary: dir dir' saved)
  case Nil
  then show ?case by simp
next
  case (Cons part parts)
  show ?case
    by (auto simp: Let_def split: option.splits intro: Cons.IH)
qed

lemma build_offer_skip:
  assumes "opened f = Inr msg" and "msg_id E msg f = Inr mid" and "mid \<in> seen P"
  shows "build_offer E f P = (P, Inr None)"
  using assms by (simp add: build_offer_def)

lemma build_offer_None:
  assumes "snd (build_offer E f P) = Inr None"
  shows "\<exists>msg mid. opened f = Inr msg \<and> msg_id E msg f = Inr mid \<and> mid \<in> seen P"
  using assms
  by (auto simp: build_offer_def Let_def split: sum.splits if_splits prod.splits)

lemma build_offer_id:
  assumes "build_offer E f P = (P', Inr (Some (key, dt, offer)))"
  shows "\<exists>msg. opened f = Inr msg \<and> msg_id E msg f = Inr (message_id offer)"
  using assms
  by (auto simp: build_offer_def Let_def split: sum.splits if_splits prod.splits)

lemma build_offer_fails_elsewhere:
  assumes "snd (build_offer E f P) = Inl e"
  shows "snd (build_offer E f P') = Inl e \<or> snd (build_offer E f P') = Inr None"
proof -
  have imgs: "snd (save_imgs E msg (image_dir P')) = snd (save_imgs E msg (image_dir P))" for msg
    unfolding save_imgs_def by (rule save_imgs_loop_result)
  from assms [unfolded build_offer_fails_iff] show ?thesis
  proof (elim disjE exE conjE)
    assume "opened f = Inl e"
    then show ?thesis by (simp add: build_offer_def)
  next
    fix msg assume "opened f = Inr msg" "msg_id E msg f = Inl e"
    then show ?thesis by (simp add: build_offer_def)
  next
    fix msg mid
    assume m: "opened f = Inr msg" "msg_id E msg f = Inr mid"
      and d: "as_dt E (case hdr_date msg of None \<Rightarrow> [] | Some d \<Rightarrow> d) = Inl e"
    show ?thesis
    proof (cases "mid \<in> seen P'")
      case True
      with m show ?thesis by (simp add: build_offer_skip)
    next
      case False
      with m d have "snd (build_offer E f P') = Inl e"
        unfolding build_offer_fails_iff by blast
      then show ?thesis ..
    qed
  next
    fix msg mid dt
    assume m: "opened f = Inr msg" "msg_id E msg f = Inr mid"
      and d: "as_dt E (case hdr_date msg of None \<Rightarrow> [] | Some d \<Rightarrow> d) = Inr dt"
      and b: "body E msg = Inl e"
    show ?thesis
    proof (cases "mid \<in> seen P'")
      case True
      with m show ?thesis by (simp add: build_offer_skip)
    next
      case False
      with m d b have "snd (build_offer E f P') = Inl e"
        unfolding build_offer_fails_iff by blast
      then show ?thesis ..
    qed
  next
    fix msg mid dt b
    assume m: "opened f = Inr msg" "msg_id E msg f = Inr mid"
      and d: "as_dt E (case hdr_date msg of None \<Rightarrow> [] | Some d \<Rightarrow> d) = Inr dt"
      and b: "body E msg = Inr b" and s: "snd (save_imgs E msg (image_dir P)) = Inl e"
    show ?thesis
    proof (cases "mid \<in> seen P'")
      case True
      with m show ?thesis by (simp add: build_offer_skip)
    next
      case False
      with m d b s imgs [of msg] have "snd (build_offer E f P') = Inl e"
        unfolding build_offer_fails_iff by auto
      then show ?thesis ..
    qed
  qed
qed

lemma process_file_skipped:
  assumes "snd (build_offer E f (pipe st)) = Inr None"
  shows "process_file E f st = (st, SkippedAsSeen)"
proof -
  from build_offer_None [OF assms] obtain msg mid
    where "opened f = Inr msg" "msg_id E msg f = Inr mid" "mid \<in> seen (pipe st)" by blast
  then have "build_offer E f (pipe st) = (pipe st, Inr None)" by (rule build_offer_skip)
  then show ?thesis by (simp add: process_file_def)
qed

lemma keep_latest_wf:
  assumes "wf_latest E L" and "key = offer_key offer" and "offer_dt E offer = dt"
  shows "keep_latest E key dt offer L = Inr (merge_offer E L offer)"
proof (cases "map_of L key")
  case None
  with assms show ?thesis by (simp add: keep_latest_def merge_offer_def)
next
  case (Some prev)
  then have "(key, prev) \<in> set L" by (rule map_of_SomeD)
  with wf_latest_good [OF assms(1)] obtain t where "as_dt E (date_received prev) = Inr t" by blast
  with Some assms show ?thesis by (simp add: keep_latest_def merge_offer_def)
qed

lemma process_file_parsed:
  assumes writes: "\<forall>ids. ledger_write_error E ids = None"
    and wf: "wf_latest E (latest st)"
    and b: "build_offer E f (pipe st) = (P, Inr (Some (key, dt, offer)))"
  shows "process_file E f st =
     (st\<lparr>pipe := P\<lparr>seen := insert (message_id offer) (seen P),
                      hash_file := Some (insert (message_id offer) (seen P))\<rparr>,
         latest := merge_offer E (latest st) offer,
         new_offers_count := Suc (new_offers_count st)\<rparr>, Parsed)"
proof -
  from build_offer_Some [OF b] have "key = offer_key offer" "offer_dt E offer = dt" by simp_all
  from keep_latest_wf [OF wf this] writes b show ?thesis
    by (simp add: process_file_def save_hash_def Let_def)
qed

lemma process_file_outcome:
  assumes writes: "\<forall>ids. ledger_write_error E ids = None" and wf: "wf_latest E (latest st)"
  shows "(snd (process_file E f st) = Failed e \<longleftrightarrow> snd (build_offer E f (pipe st)) = Inl e) \<and>
         (snd (process_file E f st) = SkippedAsSeen \<longleftrightarrow> snd (build_offer E f (pipe st)) = Inr None) \<and>
         (snd (process_file E f st) = Parsed \<longleftrightarrow> (\<exists>c. snd (build_offer E f (pipe st)) = Inr (Some c)))"
proof (cases "build_offer E f (pipe st)")
  case (Pair P r)
  show ?thesis
  proof (cases r)
    case (Inl e')
    with Pair have "snd (build_offer E f (pipe st)) = Inl e'" by simp
    with process_file_failed_early [of E f st e'] show ?thesis by auto
  next
    case (Inr c)
    show ?thesis
    proof (cases c)
      case None
      with Pair Inr have "snd (build_offer E f (pipe st)) = Inr None" by simp
      with process_file_skipped [of E f st] show ?thesis by simp
    next
      case (Some kdo)
      obtain key dt offer where "kdo = (key, dt, offer)" by (cases kdo)
      with Pair Inr Some have b: "build_offer E f (pipe st) = (P, Inr (Some (key, dt, offer)))" by simp
      from process_file_parsed [OF writes wf b] b show ?thesis by simp
    qed
  qed
qed

lemma process_file_invariant:
  assumes writes: "\<forall>ids. ledger_write_error E ids = None"
    and wf: "wf_latest E (latest st)" and sync: "ledger_in_sync (pipe st)"
  shows "wf_latest E (latest (fst (process_file E f st)))"
    and "ledger_in_sync (pipe (fst (process_file E f st)))"
    and "seen (pipe st) \<subseteq> seen (pipe (fst (process_file E f st)))"
    and "settled E (seen (pipe (fst (process_file E f st)))) f"
    and "snd (process_file E f st) = Parsed \<or> snd (process_file E f st) = SkippedAsSeen \<longrightarrow>
           (\<exists>msg mid. opened f = Inr msg \<and> msg_id E msg f = Inr mid \<and>
              mid \<in> seen (pipe (fst (process_file E f st))))"
proof -
  obtain P r where Pair: "build_offer E f (pipe st) = (P, r)" by (cases "build_offer E f (pipe st)")
  note same = build_offer_pipe [OF Pair]
  consider (fail) e' where "r = Inl e'" | (skip) "r = Inr None"
    | (built) key dt offer where "r = Inr (Some (key, dt, offer))"
    by (cases r) (auto, metis option.exhaust prod_cases3)
  then have "wf_latest E (latest (fst (process_file E f st))) \<and>
     ledger_in_sync (pipe (fst (process_file E f st))) \<and>
     seen (pipe st) \<subseteq> seen (pipe (fst (process_file E f st))) \<and>
     settled E (seen (pipe (fst (process_file E f st)))) f \<and>
     (snd (process_file E f st) = Parsed \<or> snd (process_file E f st) = SkippedAsSeen \<longrightarrow>
           (\<exists>msg mid. opened f = Inr msg \<and> msg_id E msg f = Inr mid \<and>
              mid \<in> seen (pipe (fst (process_file E f st)))))"
  proof cases
    case fail
    with Pair have b: "snd (build_offer E f (pipe st)) = Inl e'" by simp
    from process_file_failed_early [of E f st e'] b
    have pf: "process_file E f st =
        (st\<lparr>pipe := (pipe st)\<lparr>image_dir := image_dir (fst (build_offer E f (pipe st)))\<rparr>\<rparr>, Failed e')"
      by simp
    have "settled E (seen (pipe st)) f"
      unfolding settled_def
    proof (intro allI impI)
      fix Q :: pipeline and c
      from build_offer_fails_elsewhere [OF b, of Q]
      show "snd (build_offer E f Q) \<noteq> Inr (Some c)" by auto
    qed
    moreover have "snd (process_file E f st) \<noteq> Parsed" "snd (process_file E f st) \<noteq> SkippedAsSeen"
      by (simp_all add: pf)
    ultimately show ?thesis using wf sync by (simp add: pf ledger_in_sync_def)
  next
    case skip
    with Pair have b: "snd (build_offer E f (pipe st)) = Inr None" by simp
    from process_file_skipped [OF b] have pf: "process_file E f st = (st, SkippedAsSeen)" .
    from build_offer_None [OF b] obtain msg mid
      where m: "opened f = Inr msg" "msg_id E msg f = Inr mid" "mid \<in> seen (pipe st)" by blast
    have "settled E (seen (pipe st)) f"
      unfolding settled_def
    proof (intro allI impI)
      fix Q :: pipeline and c assume "seen (pipe st) \<subseteq> seen Q"
      with m have "build_offer E f Q = (Q, Inr None)" by (intro build_offer_skip) auto
      then show "snd (build_offer E f Q) \<noteq> Inr (Some c)" by simp
    qed
    with m wf sync show ?thesis by (auto simp: pf)
  next
    case built
    with Pair have b: "build_offer E f (pipe st) = (P, Inr (Some (key, dt, offer)))" by simp
    note pf = process_file_parsed [OF writes wf b]
    from build_offer_id [OF b] obtain msg
      where m: "opened f = Inr msg" "msg_id E msg f = Inr (message_id offer)" by blast
    from build_offer_Some(2) [OF b] have good: "\<exists>t. as_dt E (date_received offer) = Inr t" by blast
    have "settled E (insert (message_id offer) (seen P)) f"
      unfolding settled_def
    proof (intro allI impI)
      fix Q :: pipeline and c assume "insert (message_id offer) (seen P) \<subseteq> seen Q"
      with m have "build_offer E f Q = (Q, Inr None)" by (intro build_offer_skip) auto
      then show "snd (build_offer E f Q) \<noteq> Inr (Some c)" by simp
    qed
    with m same wf_latest_merge [OF wf good] show ?thesis
      by (auto simp: pf ledger_in_sync_def load_hashes_def)
  qed
  then show "wf_latest E (latest (fst (process_file E f st)))"
    and "ledger_in_sync (pipe (fst (process_file E f st)))"
    and "seen (pipe st) \<subseteq> seen (pipe (fst (process_file E f st)))"
    and "settled E (seen (pipe (fst (process_file E f st)))) f"
    and "snd (process_file E f st) = Parsed \<or> snd (process_file E f st) = SkippedAsSeen \<longrightarrow>
           (\<exists>msg mid. opened f = Inr msg \<and> msg_id E msg f = Inr mid \<and>
              mid \<in> seen (pipe (fst (process_file E f st))))"
    by blast+
qed

lemma settled_mono: "settled E ids f \<Longrightarrow> ids \<subseteq> ids' \<Longrightarrow> settled E ids' f"
  unfolding settled_def by (meson subset_trans)

lemma first_run_inv:
  assumes writes: "\<forall>ids. ledger_write_error E ids = None"
    and "wf_latest E (latest st)" and "ledger_in_sync (pipe st)"
  shows "wf_latest E (latest (process_loop E fs st))"
    and "ledger_in_sync (pipe (process_loop E fs st))"
    and "seen (pipe st) \<subseteq> seen (pipe (process_loop E fs st))"
proof -
  have "wf_latest E (latest (process_loop E fs st)) \<and>
        ledger_in_sync (pipe (process_loop E fs st)) \<and>
        seen (pipe st) \<subseteq> seen (pipe (process_loop E fs st))"
    using assms(2,3)
  proof (induction fs arbitrary: st)
    case Nil
    then show ?case by simp
  next
    case (Cons f fs)
    note step = process_file_invariant(1,2,3) [OF writes Cons.prems, of f]
    from Cons.IH [OF step(1) step(2)] step(3) show ?case
      by (simp only: process_loop.simps) blast
  qed
  then show "wf_latest E (latest (process_loop E fs st))"
    and "ledger_in_sync (pipe (process_loop E fs st))"
    and "seen (pipe st) \<subseteq> seen (pipe (process_loop E fs st))"
    by blast+
qed

lemma first_run_settled:
  assumes writes: "\<forall>ids. ledger_write_error E ids = None"
    and "wf_latest E (latest st)" and "ledger_in_sync (pipe st)"
  shows "\<forall>f\<in>set fs. settled E (seen (pipe (process_loop E fs st))) f"
  using assms(2,3)
proof (induction fs arbitrary: st)
  case Nil
  then show ?case by simp
next
  case (Cons f fs)
  let ?st' = "fst (process_file E f st)"
  note step = process_file_invariant(1,2,4) [OF writes Cons.prems, of f]
  from first_run_inv(3) [OF writes step(1) step(2), of fs]
  have mono: "seen (pipe ?st') \<subseteq> seen (pipe (process_loop E fs ?st'))" .
  from settled_mono [OF step(3) mono]
  have "settled E (seen (pipe (process_loop E fs ?st'))) f" .
  with Cons.IH [OF step(1) step(2)] show ?case
    by (simp only: process_loop.simps set_simps ball_simps)
qed

lemma first_run_known:
  assumes writes: "\<forall>ids. ledger_write_error E ids = None"
    and "wf_latest E (latest st)" and "ledger_in_sync (pipe st)"
    and "i < length fs"
    and "outcomes E fs st ! i = Parsed \<or> outcomes E fs st ! i = SkippedAsSeen"
  shows "\<exists>msg mid. opened (fs ! i) = Inr msg \<and> msg_id E msg (fs ! i) = Inr mid \<and>
           mid \<in> seen (pipe (process_loop E fs st))"
  using assms(2-)
proof (induction fs arbitrary: st i)
  case Nil
  then show ?case by simp
next
  case (Cons f fs)
  let ?st' = "fst (process_file E f st)"
  note step = process_file_invariant(1,2,5) [OF writes Cons.prems(1,2), of f]
  show ?case
  proof (cases i)
    case 0
    with Cons.prems(4) have "snd (process_file E f st) = Parsed \<or> snd (process_file E f st) = SkippedAsSeen"
      by simp
    with step(3) obtain msg mid where m: "opened f = Inr msg" "msg_id E msg f = Inr mid"
      "mid \<in> seen (pipe ?st')" by blast
    from first_run_inv(3) [OF writes step(1) step(2), of fs] m(3)
    have "mid \<in> seen (pipe (process_loop E fs ?st'))" by blast
    with m(1,2) 0 show ?thesis by auto
  next
    case (Suc j)
    with Cons.prems(3,4) have j: "j < length fs"
      "outcomes E fs ?st' ! j = Parsed \<or> outcomes E fs ?st' ! j = SkippedAsSeen" by simp_all
    from Cons.IH [OF step(1) step(2) j] Suc show ?thesis by simp
  qed
qed

lemma first_run_failed:
  assumes writes: "\<forall>ids. ledger_write_error E ids = None"
    and "wf_latest E (latest st)" and "ledger_in_sync (pipe st)"
    and "i < length fs" and "outcomes E fs st ! i = Failed e"
  shows "\<exists>Q. snd (build_offer E (fs ! i) Q) = Inl e"
  using assms(2-)
proof (induction fs arbitrary: st i)
  case Nil
  then show ?case by simp
next
  case (Cons f fs)
  let ?st' = "fst (process_file E f st)"
  note step = process_file_invariant(1,2) [OF writes Cons.prems(1,2), of f]
  show ?case
  proof (cases i)
    case 0
    with Cons.prems(4) have "snd (process_file E f st) = Failed e" by simp
    with process_file_outcome [OF writes Cons.prems(1), of f e]
    have "snd (build_offer E f (pipe st)) = Inl e" by blast
    with 0 show ?thesis by auto
  next
    case (Suc j)
    with Cons.prems(3,4) have j: "j < length fs" "outcomes E fs ?st' ! j = Failed e" by simp_all
    from Cons.IH [OF step(1) step(2) j] Suc show ?thesis by simp
  qed
qed

lemma settled_build:
  assumes "settled E ids f" and "ids \<subseteq> seen (pipe st)"
  shows "(\<exists>e. snd (build_offer E f (pipe st)) = Inl e) \<or> snd (build_offer E f (pipe st)) = Inr None"
proof (cases "snd (build_offer E f (pipe st))")
  case (Inl e)
  then show ?thesis by blast
next
  case (Inr c)
  from assms have "\<forall>c. snd (build_offer E f (pipe st)) \<noteq> Inr (Some c)"
    unfolding settled_def by blast
  with Inr show ?thesis by (cases c) auto
qed

lemma settled_step:
  assumes "settled E ids f" and "ids \<subseteq> seen (pipe st)"
  shows "latest (fst (process_file E f st)) = latest st"
    and "seen (pipe (fst (process_file E f st))) = seen (pipe st)"
    and "hash_file (pipe (fst (process_file E f st))) = hash_file (pipe st)"
    and "snd (process_file E f st) \<noteq> Parsed"
proof -
  have "latest (fst (process_file E f st)) = latest st \<and>
     seen (pipe (fst (process_file E f st))) = seen (pipe st) \<and>
     hash_file (pipe (fst (process_file E f st))) = hash_file (pipe st) \<and>
     snd (process_file E f st) \<noteq> Parsed"
    using settled_build [OF assms]
  proof (elim disjE exE)
    fix e assume "snd (build_offer E f (pipe st)) = Inl e"
    then have "process_file E f st =
        (st\<lparr>pipe := (pipe st)\<lparr>image_dir := image_dir (fst (build_offer E f (pipe st)))\<rparr>\<rparr>, Failed e)"
      by (intro process_file_failed_early) simp
    then show ?thesis by simp
  next
    assume "snd (build_offer E f (pipe st)) = Inr None"
    from process_file_skipped [OF this] show ?thesis by simp
  qed
  then show "latest (fst (process_file E f st)) = latest st"
    and "seen (pipe (fst (process_file E f st))) = seen (pipe st)"
    and "hash_file (pipe (fst (process_file E f st))) = hash_file (pipe st)"
    and "snd (process_file E f st) \<noteq> Parsed"
    by blast+
qed

lemma settled_candidate:
  assumes "settled E ids f" and "ids \<subseteq> seen (pipe st)"
  shows "(case snd (build_offer E f (pipe st)) of
            Inr (Some (key, dt, offer)) \<Rightarrow> [offer] | _ \<Rightarrow> []) = []"
  using settled_build [OF assms] by auto

lemma settled_failed:
  assumes "settled E ids f" and "ids \<subseteq> seen (pipe st)" and "snd (build_offer E f Q) = Inl e"
  shows "snd (process_file E f st) = Failed e \<or> snd (process_file E f st) = SkippedAsSeen"
  using settled_build [OF assms(1,2)]
proof (elim disjE exE)
  fix e' assume b: "snd (build_offer E f (pipe st)) = Inl e'"
  from build_offer_fails_elsewhere [OF assms(3), of "pipe st"] b have "e' = e" by simp
  with b have "snd (build_offer E f (pipe st)) = Inl e" by simp
  then have "process_file E f st =
        (st\<lparr>pipe := (pipe st)\<lparr>image_dir := image_dir (fst (build_offer E f (pipe st)))\<rparr>\<rparr>, Failed e)"
    by (intro process_file_failed_early) simp
  then show ?thesis by simp
next
  assume "snd (build_offer E f (pipe st)) = Inr None"
  from process_file_skipped [OF this] show ?thesis by simp
qed

lemma second_run_state:
  assumes "\<forall>f\<in>set fs. settled E ids f" and "ids \<subseteq> seen (pipe st)"
  shows "candidates E fs st = []"
    and "latest (process_loop E fs st) = latest st"
    and "seen (pipe (process_loop E fs st)) = seen (pipe st)"
    and "hash_file (pipe (process_loop E fs st)) = hash_file (pipe st)"
proof -
  have "candidates E fs st = [] \<and> latest (process_loop E fs st) = latest st \<and>
     seen (pipe (process_loop E fs st)) = seen (pipe st) \<and>
     hash_file (pipe (process_loop E fs st)) = hash_file (pipe st)"
    using assms
  proof (induction fs arbitrary: st)
    case Nil
    then show ?case by simp
  next
    case (Cons f fs)
    let ?st' = "fst (process_file E f st)"
    from Cons.prems have sf: "settled E ids f" and rest: "\<forall>g\<in>set fs. settled E ids g" by simp_all
    note step = settled_step [OF sf Cons.prems(2)]
    from step(2) Cons.prems(2) have sub: "ids \<subseteq> seen (pipe ?st')" by simp
    note IH = Cons.IH [OF rest sub]
    have "candidates E (f # fs) st = [] @ candidates E fs ?st'"
      by (simp only: candidates.simps settled_candidate [OF sf Cons.prems(2)])
    with IH step(1,2,3) show ?case by (simp only: process_loop.simps) simp
  qed
  then show "candidates E fs st = []"
    and "latest (process_loop E fs st) = latest st"
    and "seen (pipe (process_loop E fs st)) = seen (pipe st)"
    and "hash_file (pipe (process_loop E fs st)) = hash_file (pipe st)"
    by blast+
qed

lemma second_run_skips:
  assumes "\<forall>f\<in>set fs. settled E ids f" and "ids \<subseteq> seen (pipe st)"
    and "i < length fs"
    and "opened (fs ! i) = Inr msg" and "msg_id E msg (fs ! i) = Inr mid" and "mid \<in> seen (pipe st)"
  shows "outcomes E fs st ! i = SkippedAsSeen"
  using assms
proof (induction fs arbitrary: st i)
  case Nil
  then show ?case by simp
next
  case (Cons f fs)
  let ?st' = "fst (process_file E f st)"
  from Cons.prems have sf: "settled E ids f" and rest: "\<forall>g\<in>set fs. settled E ids g" by simp_all
  note step = settled_step [OF sf Cons.prems(2)]
  show ?case
  proof (cases i)
    case 0
    with Cons.prems(4,5,6) have "build_offer E f (pipe st) = (pipe st, Inr None)"
      by (intro build_offer_skip) simp_all
    then have "snd (build_offer E f (pipe st)) = Inr None" by simp
    from process_file_skipped [OF this] 0 show ?thesis by simp
  next
    case (Suc j)
    from step(2) Cons.prems(2) have sub: "ids \<subseteq> seen (pipe ?st')" by simp
    from Suc Cons.prems(3,4,5,6) step(2) have j: "j < length fs" "opened (fs ! j) = Inr msg"
      "msg_id E msg (fs ! j) = Inr mid" "mid \<in> seen (pipe ?st')" by simp_all
    from Cons.IH [OF rest sub j] Suc show ?thesis by simp
  qed
qed

lemma second_run_fails:
  assumes "\<forall>f\<in>set fs. settled E ids f" and "ids \<subseteq> seen (pipe st)"
    and "i < length fs" and "snd (build_offer E (fs ! i) Q) = Inl e"
  shows "outcomes E fs st ! i = Failed e \<or> outcomes E fs st ! i = SkippedAsSeen"
  using assms
proof (induction fs arbitrary: st i)
  case Nil
  then show ?case by simp
next
  case (Cons f fs)
  let ?st' = "fst (process_file E f st)"
  from Cons.prems have sf: "settled E ids f" and rest: "\<forall>g\<in>set fs. settled E ids g" by simp_all
  note step = settled_step [OF sf Cons.prems(2)]
  show ?case
  proof (cases i)
    case 0
    with Cons.prems(4) have "snd (build_offer E f Q) = Inl e" by simp
    from settled_failed [OF sf Cons.prems(2) this] 0 show ?thesis by simp
  next
    case (Suc j)
    from step(2) Cons.prems(2) have sub: "ids \<subseteq> seen (pipe ?st')" by simp
    from Suc Cons.prems(3,4) have j: "j < length fs" "snd (build_offer E (fs ! j) Q) = Inl e"
      by simp_all
    from Cons.IH [OF rest sub j] Suc show ?thesis by simp
  qed
qed

lemma process_file_skip_unchanged:
  assumes "snd (process_file E f st) = SkippedAsSeen"
  shows "fst (process_file E f st) = st"
proof -
  obtain P r where b: "build_offer E f (pipe st) = (P, r)" by (cases "build_offer E f (pipe st)")
  from assms b have "r = Inr None"
    by (auto simp: process_file_def split: sum.splits option.splits prod.splits)
  with b have "snd (build_offer E f (pipe st)) = Inr None" by simp
  from process_file_skipped [OF this] show ?thesis by simp
qed

lemma process_pipe: "fst (process E P files) = pipe (process_loop E files (start_state P))"
  by (simp add: process_def Let_def)

lemma start_invariant:
  "wf_latest E (latest (start_state (init_pipeline hf dir)))"
  "ledger_in_sync (pipe (start_state (init_pipeline hf dir)))"
  "seen (pipe (start_state (init_pipeline hf dir))) = load_hashes hf"
  by (simp_all add: start_state_def init_pipeline_def wf_latest_def ledger_in_sync_def)

lemma sample_broken_fails:
  assumes "''<m9@example.com>'' \<notin> seen (pipe st)"
  shows "process_file sample_env sample_broken st = (st, Failed OtherError)"
proof -
  from assms have "build_offer sample_env sample_broken (pipe st) = (pipe st, Inl OtherError)"
    by (simp add: build_offer_def sample_broken_def sample_file_def msg_id_def as_dt_def
        sample_env_def sample_parsedate_def)
  then show ?thesis by (simp add: process_file_def)
qed

text \<open>
  C2, as stated: on the second run every message's identity is found in the ledger and
  the message is skipped. It fails for a message whose processing raised in the first
  run before the ledger was updated: its identity is not in the ledger, and the second
  run processes it again and fails again. Here the date of the message overflows.
\<close>

theorem rerun_not_all_skipped_counterexample:
  "''<m9@example.com>'' \<notin>
     load_hashes (hash_file (fst (process sample_env (init_pipeline None Map.empty) [sample_broken]))) \<and>
   outcomes sample_env [sample_broken]
     (start_state (init_pipeline
        (hash_file (fst (process sample_env (init_pipeline None Map.empty) [sample_broken])))
        (image_dir (fst (process sample_env (init_pipeline None Map.empty) [sample_broken])))))
     = [Failed OtherError]"
proof -
  have s: "''<m9@example.com>'' \<notin> seen (pipe (start_state (init_pipeline None Map.empty)))"
    by (simp add: start_invariant load_hashes_def)
  have fields: "hash_file (init_pipeline None Map.empty) = None"
    "image_dir (init_pipeline None Map.empty) = Map.empty"
    by (simp_all add: init_pipeline_def)
  have P1: "fst (process sample_env (init_pipeline None Map.empty) [sample_broken]) =
      init_pipeline None Map.empty"
    by (simp add: process_pipe sample_broken_fails [OF s]) (simp add: start_state_def)
  have a: "''<m9@example.com>'' \<notin> load_hashes (hash_file (init_pipeline None Map.empty))"
    by (simp add: fields load_hashes_def)
  have b: "outcomes sample_env [sample_broken]
     (start_state (init_pipeline (hash_file (init_pipeline None Map.empty))
        (image_dir (init_pipeline None Map.empty)))) = [Failed OtherError]"
    by (simp only: fields outcomes.simps sample_broken_fails [OF s] snd_conv)
  from a b show ?thesis by (simp only: P1) simp
qed

text \<open>
  C2, amended. Let the ledger writes of the first run succeed, and let the second run
  start from the ledger file and the image folder the first run left, on the same
  files. Then the second run builds no candidate, writes no output and ends with the
  \<^verbatim>\<open>no new offers\<close> result, and leaves the ledger as it was. Every message that the first
  run parsed or skipped is skipped by the second, and a skipped message changes nothing
  (no image is saved, no candidate is made). A message that failed in the first run
  before the ledger update is not marked seen by it: the second run either fails on it
  in the same way or skips it because another message carried the same identity.
\<close>

theorem rerun_builds_nothing:
  fixes E :: env and hf :: "string set option" and dir :: "string \<rightharpoonup> string" and files :: "eml_file list"
  defines "P1 \<equiv> fst (process E (init_pipeline hf dir) files)"
  defines "P2 \<equiv> init_pipeline (hash_file P1) (image_dir P1)"
  assumes writes: "\<forall>ids. ledger_write_error E ids = None"
  shows "candidates E files (start_state P2) = [] \<and>
         snd (process E P2 files) = NoNewOffers \<and>
         hash_file (fst (process E P2 files)) = hash_file P1 \<and>
         seen (fst (process E P2 files)) = seen P1 \<and>
         (\<forall>i<length files.
            outcomes E files (start_state (init_pipeline hf dir)) ! i = Parsed \<or>
            outcomes E files (start_state (init_pipeline hf dir)) ! i = SkippedAsSeen
            \<longrightarrow> outcomes E files (start_state P2) ! i = SkippedAsSeen) \<and>
         (\<forall>i<length files. \<forall>e.
            outcomes E files (start_state (init_pipeline hf dir)) ! i = Failed e
            \<longrightarrow> outcomes E files (start_state P2) ! i = Failed e \<or>
                outcomes E files (start_state P2) ! i = SkippedAsSeen) \<and>
         (\<forall>f st. snd (process_file E f st) = SkippedAsSeen \<longrightarrow> fst (process_file E f st) = st)"
proof -
  let ?st0 = "start_state (init_pipeline hf dir)"
  note start = start_invariant(1) [of E hf dir] start_invariant(2) [of hf dir]
  note inv = first_run_inv [where fs = files, OF writes start]
  have P1: "P1 = pipe (process_loop E files ?st0)" by (simp add: P1_def process_pipe)
  from inv(2) have sync: "load_hashes (hash_file P1) = seen P1" by (simp add: P1 ledger_in_sync_def)
  have seen2: "seen (pipe (start_state P2)) = seen P1"
    unfolding P2_def by (simp add: start_invariant(3) sync)
  have hash2: "hash_file (pipe (start_state P2)) = hash_file P1"
    unfolding P2_def by (simp add: start_state_def init_pipeline_def)
  have latest2: "latest (start_state P2) = []" by (simp add: start_state_def)
  from first_run_settled [where fs = files, OF writes start]
  have settled: "\<forall>f\<in>set files. settled E (seen P1) f" by (simp add: P1)
  have sub: "seen P1 \<subseteq> seen (pipe (start_state P2))" by (simp add: seen2)
  note second = second_run_state [OF settled sub]
  have a: "candidates E files (start_state P2) = []" by (rule second(1))
  have b: "snd (process E P2 files) = NoNewOffers"
    by (simp add: process_result second(2) latest2)
  have c: "hash_file (fst (process E P2 files)) = hash_file P1"
    "seen (fst (process E P2 files)) = seen P1"
    by (simp_all add: process_pipe second(3,4) seen2 hash2)
  have d: "\<forall>i<length files.
            outcomes E files ?st0 ! i = Parsed \<or> outcomes E files ?st0 ! i = SkippedAsSeen
            \<longrightarrow> outcomes E files (start_state P2) ! i = SkippedAsSeen"
  proof (intro allI impI)
    fix i
    assume i: "i < length files"
      and o: "outcomes E files ?st0 ! i = Parsed \<or> outcomes E files ?st0 ! i = SkippedAsSeen"
    from first_run_known [OF writes start i o]
    obtain msg mid where m: "opened (files ! i) = Inr msg" "msg_id E msg (files ! i) = Inr mid"
      "mid \<in> seen P1" unfolding P1 by blast
    from m(3) have "mid \<in> seen (pipe (start_state P2))" by (simp add: seen2)
    from second_run_skips [OF settled sub i m(1,2) this]
    show "outcomes E files (start_state P2) ! i = SkippedAsSeen" .
  qed
  have e: "\<forall>i<length files. \<forall>e.
            outcomes E files ?st0 ! i = Failed e
            \<longrightarrow> outcomes E files (start_state P2) ! i = Failed e \<or>
                outcomes E files (start_state P2) ! i = SkippedAsSeen"
  proof (intro allI impI)
    fix i e
    assume i: "i < length files" and o: "outcomes E files ?st0 ! i = Failed e"
    from first_run_failed [OF writes start i o]
    obtain Q where "snd (build_offer E (files ! i) Q) = Inl e" by blast
    from second_run_fails [OF settled sub i this]
    show "outcomes E files (start_state P2) ! i = Failed e \<or>
          outcomes E files (start_state P2) ! i = SkippedAsSeen" .
  qed
  have f: "\<forall>f st. snd (process_file E f st) = SkippedAsSeen \<longrightarrow> fst (process_file E f st) = st"
    using process_file_skip_unchanged by blast
  from a b c d e f show ?thesis by (intro conjI)
qed



theorem rerun_builds_nothing_witness:
  "hash_file (fst (process sample_env (init_pipeline None Map.empty)
       [sample_first, sample_other, sample_reply])) =
     Some {''<m3@example.com>'', ''<m2@example.com>'', ''<m1@example.com>''} \<and>
   snd (process sample_env
     (init_pipeline (Some {''<m3@example.com>'', ''<m2@example.com>'', ''<m1@example.com>''}) Map.empty)
     [sample_first, sample_other, sample_reply]) = NoNewOffers"
proof -
  let ?files = "[sample_first, sample_other, sample_reply]"
  let ?P1 = "fst (process sample_env (init_pipeline None Map.empty) ?files)"
  have writes: "\<forall>ids. ledger_write_error sample_env ids = None"
    by (simp add: sample_env_def)
  have "?P1 = pipe (process_loop sample_env ?files sample_start)"
    by (simp only: process_pipe sample_start_def)
  then have P1: "hash_file ?P1 = Some {''<m3@example.com>'', ''<m2@example.com>'', ''<m1@example.com>''}"
    "image_dir ?P1 = Map.empty"
    by (simp_all only: sample_run) (simp_all add: sample_state_def)
  from rerun_builds_nothing [where E = sample_env and hf = None and dir = Map.empty and files = ?files, OF writes]
  have "snd (process sample_env (init_pipeline (hash_file ?P1) (image_dir ?P1)) ?files) = NoNewOffers"
    by blast
  then have "snd (process sample_env
     (init_pipeline (Some {''<m3@example.com>'', ''<m2@example.com>'', ''<m1@example.com>''}) Map.empty)
     ?files) = NoNewOffers"
    by (simp only: P1)
  with P1(1) show ?thesis by (intro conjI)
qed

end
